theory Spec2Isabelle
  imports Main
begin

text \<open>
  A model of the voice orchestration of \<^verbatim>\<open>static/script.js\<close>: the wake-word matcher, the
  command interpreter, the POST helper, and the event handlers of the three speech
  recognition sessions, of speech synthesis, of the pending timers and of the mute and
  clear-all buttons, as transitions of one state record.
\<close>

section \<open>JavaScript strings\<close>

text \<open>
  A transcript is a \<open>string\<close>; a \<open>char\<close> stands for one code unit in the range
  U+0000 .. U+00FF. An argument that may be \<open>undefined\<close> is a \<open>string option\<close>
  (\<open>None\<close> is \<open>undefined\<close>); the test \<open>!x\<close> on such an argument holds for
  \<open>undefined\<close> and for the empty string.
\<close>

definition isWhite :: "char \<Rightarrow> bool" where
  \<comment> \<open>what \<open>\s\<close> matches and what \<open>trim()\<close> strips: TAB, LF, VT, FF, CR, SP, NBSP\<close>
  "isWhite c \<longleftrightarrow> c \<in> set [CHR 0x09, CHR 0x0A, CHR 0x0B, CHR 0x0C, CHR 0x0D, CHR 0x20, CHR 0xA0]"

definition isLineTerm :: "char \<Rightarrow> bool" where
  \<comment> \<open>the characters the regular expression \<open>.\<close> does not match\<close>
  "isLineTerm c \<longleftrightarrow> c = CHR 0x0A \<or> c = CHR 0x0D"

definition toLowerChar :: "char \<Rightarrow> char" where
  "toLowerChar c =
     (let n = (of_char c :: nat)
      in if (65 \<le> n \<and> n \<le> 90) \<or> (192 \<le> n \<and> n \<le> 222 \<and> n \<noteq> 215)
         then char_of (n + 32) else c)"

definition toLowerCase :: "string \<Rightarrow> string" where
  "toLowerCase s = map toLowerChar s"

definition trimStart :: "string \<Rightarrow> string" where
  "trimStart s = dropWhile isWhite s"

definition trimEnd :: "string \<Rightarrow> string" where
  "trimEnd s = rev (dropWhile isWhite (rev s))"

definition trim :: "string \<Rightarrow> string" where
  "trim s = trimEnd (trimStart s)"

definition startsWith :: "string \<Rightarrow> string \<Rightarrow> bool" where
  "startsWith s p \<longleftrightarrow> take (length p) s = p"

fun includesStr :: "string \<Rightarrow> string \<Rightarrow> bool" where
  "includesStr [] v = (v = [])"
| "includesStr (c # cs) v = (startsWith (c # cs) v \<or> includesStr cs v)"

definition falsy :: "string option \<Rightarrow> bool" where
  \<comment> \<open>\<open>!x\<close> for an argument that is a string or \<open>undefined\<close>\<close>
  "falsy x \<longleftrightarrow> (case x of None \<Rightarrow> True | Some s \<Rightarrow> s = [])"

section \<open>Wake word fuzzy match\<close>

definition replacePunct :: "string \<Rightarrow> string" where
  \<comment> \<open>\<open>.replace(/[.,!?]/g, " ")\<close>\<close>
  "replacePunct s =
     map (\<lambda>c. if c \<in> set [CHR ''.'', CHR '','', CHR ''!'', CHR ''?''] then CHR '' '' else c) s"

fun collapseFrom :: "bool \<Rightarrow> string \<Rightarrow> string" where
  \<comment> \<open>\<open>.replace(/\s+/g, " ")\<close>; the flag says that the run of white space the scan is in
      has already been replaced\<close>
  "collapseFrom inRun [] = []"
| "collapseFrom inRun (c # cs) =
     (if isWhite c
      then (if inRun then collapseFrom True cs else CHR '' '' # collapseFrom True cs)
      else c # collapseFrom False cs)"

definition collapseWhite :: "string \<Rightarrow> string" where
  "collapseWhite s = collapseFrom False s"

definition normalizeTranscript :: "string \<Rightarrow> string" where
  "normalizeTranscript raw = trim (collapseWhite (replacePunct (toLowerCase raw)))"

definition wakeVariants :: "string list" where
  "wakeVariants =
     [''hey to do'', ''hey todo'', ''hey to-do'',
      ''hey todu'', ''hey tudu'', ''hey tutu'', ''hey tado'', ''hey two do'', ''hey 2 do'',
      ''hello to do'', ''hello todo'', ''hello to-do'',
      ''hate to do'', ''hate todo'', ''hate to-do'', ''hate odo'', ''hate odoo'',
      ''hate todu'', ''hate tudu'',
      ''hey do'', ''hey to'', ''hey odo'']"

definition wakeWordHeard :: "string option \<Rightarrow> bool" where
  "wakeWordHeard rawTranscript =
     (case rawTranscript of
        None \<Rightarrow> False
      | Some raw \<Rightarrow>
          if raw = [] then False
          else (let transcript = normalizeTranscript raw
                in list_ex (\<lambda>v. includesStr transcript v) wakeVariants))"


subsection \<open>The same phrase up to case, punctuation and white space\<close>

text \<open>
  The specification says that a variant is heard after case, punctuation and white space
  have been normalised. Following those words, and not the normaliser of the code:
  \<open>spells q p\<close> holds when \<open>q\<close> is the phrase \<open>p\<close> with every character other than a space
  written in either case and every space written as one or more separators, a separator
  being a white-space character or one of \<open>. , ! ?\<close>; and \<open>spelledIn t v\<close> holds when some
  contiguous piece of \<open>t\<close> spells \<open>v\<close>.
\<close>

definition isPunct :: "char \<Rightarrow> bool" where
  "isPunct c \<longleftrightarrow> c \<in> set [CHR ''.'', CHR '','', CHR ''!'', CHR ''?'']"

definition isSeparator :: "char \<Rightarrow> bool" where
  "isSeparator c \<longleftrightarrow> isWhite c \<or> isPunct c"

fun spells :: "string \<Rightarrow> string \<Rightarrow> bool" where
  "spells [] [] = True"
| "spells (c # q) [] = False"
| "spells [] (d # p) = False"
| "spells (c # q) (d # p) =
     (if d = CHR '' '' then isSeparator c \<and> (spells q p \<or> spells q (d # p))
      else toLowerChar c = d \<and> spells q p)"

definition pieces :: "string \<Rightarrow> string list" where
  \<comment> \<open>every contiguous piece of a string\<close>
  "pieces t =
     concat (map (\<lambda>i. map (\<lambda>n. take n (drop i t)) [0..<Suc (length t - i)])
               [0..<Suc (length t)])"

definition spelledIn :: "string \<Rightarrow> string \<Rightarrow> bool" where
  "spelledIn t v \<longleftrightarrow> list_ex (\<lambda>q. spells q v) (pieces t)"

definition normChar :: "char \<Rightarrow> char" where
  \<comment> \<open>what \<open>toLowerCase\<close> followed by \<open>replacePunct\<close> does to one character\<close>
  "normChar c = (if isPunct (toLowerChar c) then CHR '' '' else toLowerChar c)"

definition cleanPhrase :: "string \<Rightarrow> bool" where
  \<comment> \<open>a phrase of words separated by single spaces, without punctuation\<close>
  "cleanPhrase p \<longleftrightarrow>
     p \<noteq> [] \<and> \<not> isWhite (hd p) \<and> \<not> isWhite (last p) \<and>
     list_all (\<lambda>d. d = CHR '' '' \<or> (\<not> isWhite d \<and> \<not> isPunct d)) p \<and>
     collapseFrom False p = p"

section \<open>Application state\<close>

text \<open>
  The global variables of the script are fields of the record \<open>app\<close>. The browser objects the
  script drives are part of the state too:
  \<^item> \<open>sessions s k\<close> holds one status per \<open>SpeechRecognition\<close> object of kind \<open>k\<close> that has
    been constructed; the variables \<open>wakeRecognition\<close>, \<open>commandRecognition\<close> and
    \<open>confirmRecognition\<close> hold an index into it (\<open>None\<close> is \<open>undefined\<close>/\<open>null\<close>). An object
    is \<open>Running\<close> from a successful \<open>start()\<close> to \<open>stop()\<close> or to its end event, \<open>Stopping\<close>
    from \<open>stop()\<close> to its end event, and \<open>Idle\<close> otherwise. \<open>start()\<close> on an object that is
    not \<open>Idle\<close> throws (InvalidStateError); \<open>stop()\<close> on an object that is not \<open>Running\<close> does
    nothing.
  \<^item> \<open>utterances\<close> is the queue of speech synthesis, the head being the utterance that is
    spoken, each with the callback of its \<open>onend\<close>; \<open>synth.cancel()\<close> empties the queue and
    the utterances it removes get no end event.
  \<^item> \<open>wakeTimers\<close> counts the pending \<open>setTimeout(startWakeRecognition, _)\<close> calls,
    \<open>pendingPosts\<close> the POST requests without a response yet, \<open>pendingLists\<close> the task
    listings that wait for \<open>GET /tasks\<close>.
  \<^item> \<open>trace\<close> records, in order, what the handlers did to the outside.
  Rendering of the task list, the edit dialog, the sort menu and the manual input form are
  not part of the model.
\<close>

datatype kind = Wake | Command | Confirm

datatype status = Idle | Running | Stopping

datatype callback = StartCommandCb | StartConfirmCb

datatype action = SendClear | SendClearCompleted | NoAction

datatype listKind = AllTasks | PendingTasks | CompletedTasks

type_synonym payload = "(string \<times> string) list"

datatype effect =
    Say string
  | Spoken string
  | ShowStatus string string
  | Ding
  | RecStart kind nat
  | RecStop kind nat
  | Post string payload
  | GetTasks string
  | DialogShown string
  | DialogHidden
  | SetTimeout nat

record app =
  hasRecognition :: bool
  hasSynth :: bool
  listening :: bool
  wakeRecognition :: "nat option"
  commandRecognition :: "nat option"
  wakeRunning :: bool
  inCommandMode :: bool
  sortMode :: string
  inConfirmDialog :: bool
  confirmRecognition :: "nat option"
  confirmOnConfirm :: "action option"
  confirmOnCancel :: "action option"
  dialogVisible :: bool
  sessions :: "kind \<Rightarrow> status list"
  utterances :: "(string \<times> callback option) list"
  wakeTimers :: nat
  pendingPosts :: nat
  pendingLists :: "listKind list"
  trace :: "effect list"

definition emit :: "effect \<Rightarrow> app \<Rightarrow> app" where
  "emit e s = s\<lparr>trace := trace s @ [e]\<rparr>"

definition canStart :: "kind \<Rightarrow> nat \<Rightarrow> app \<Rightarrow> bool" where
  "canStart k i s \<longleftrightarrow> i < length (sessions s k) \<and> sessions s k ! i = Idle"

definition recStart :: "kind \<Rightarrow> nat \<Rightarrow> app \<Rightarrow> app" where
  \<comment> \<open>a \<open>start()\<close> that does not throw\<close>
  "recStart k i s =
     emit (RecStart k i) (s\<lparr>sessions := (sessions s)(k := (sessions s k)[i := Running])\<rparr>)"

definition tryStart :: "kind \<Rightarrow> nat \<Rightarrow> app \<Rightarrow> app" where
  \<comment> \<open>\<open>start()\<close> where an exception changes nothing else: inside \<open>try\<close> with an empty or
      logging \<open>catch\<close>, or as the last statement of a handler\<close>
  "tryStart k i s = (if canStart k i s then recStart k i s else s)"

definition recStop :: "kind \<Rightarrow> nat \<Rightarrow> app \<Rightarrow> app" where
  "recStop k i s =
     (if i < length (sessions s k) \<and> sessions s k ! i = Running
      then emit (RecStop k i) (s\<lparr>sessions := (sessions s)(k := (sessions s k)[i := Stopping])\<rparr>)
      else s)"

definition newSession :: "kind \<Rightarrow> app \<Rightarrow> app" where
  \<comment> \<open>\<open>new SpeechRecognition()\<close>; the new object has index \<open>length (sessions s k)\<close>\<close>
  "newSession k s = s\<lparr>sessions := (sessions s)(k := sessions s k @ [Idle])\<rparr>"

definition capturing :: "kind \<Rightarrow> app \<Rightarrow> bool" where
  "capturing k s \<longleftrightarrow> Running \<in> set (sessions s k)"

section \<open>Audio, speech output, status line\<close>

definition playDing :: "app \<Rightarrow> app" where
  "playDing s = emit Ding s"

definition showStatus :: "string \<Rightarrow> string \<Rightarrow> app \<Rightarrow> app" where
  "showStatus msg color s = emit (ShowStatus msg color) s"

definition startWakeRecognition :: "app \<Rightarrow> app" where
  "startWakeRecognition s =
     (if \<not> wakeRunning s \<and> listening s then
        (case wakeRecognition s of
           None \<Rightarrow> s
         | Some w \<Rightarrow> if canStart Wake w s then (recStart Wake w s)\<lparr>wakeRunning := True\<rparr> else s)
      else s)"

definition stopWakeRecognition :: "app \<Rightarrow> app" where
  "stopWakeRecognition s =
     (if wakeRunning s then
        (case wakeRecognition s of
           None \<Rightarrow> s
         | Some w \<Rightarrow> (recStop Wake w s)\<lparr>wakeRunning := False\<rparr>)
      else s)"

definition stopCommandRecognition :: "app \<Rightarrow> app" where
  \<comment> \<open>\<open>try { commandRecognition && commandRecognition.stop(); } catch {}\<close>\<close>
  "stopCommandRecognition s =
     (case commandRecognition s of None \<Rightarrow> s | Some c \<Rightarrow> recStop Command c s)"

definition startConfirmRecognition :: "app \<Rightarrow> app" where
  \<comment> \<open>the inner function of \<open>openConfirmDialog\<close>; its handlers are \<open>confirmOnResult\<close>,
      \<open>confirmOnEnd\<close> below\<close>
  "startConfirmRecognition s =
     (if \<not> hasRecognition s then s
      else (let i = length (sessions s Confirm);
                s1 = (newSession Confirm s)\<lparr>confirmRecognition := Some i\<rparr>
            in tryStart Confirm i s1))"

definition commandPromptEnded :: "app \<Rightarrow> app" where
  \<comment> \<open>\<open>utter.onend\<close> of the prompt spoken on wake detection\<close>
  "commandPromptEnded s =
     (let s1 = showStatus ''Speak now!'' ''green'' (playDing s)
      in case commandRecognition s1 of None \<Rightarrow> s1 | Some c \<Rightarrow> tryStart Command c s1)"

definition runCallback :: "callback \<Rightarrow> app \<Rightarrow> app" where
  "runCallback cb s =
     (case cb of StartCommandCb \<Rightarrow> commandPromptEnded s | StartConfirmCb \<Rightarrow> startConfirmRecognition s)"

definition speak :: "string \<Rightarrow> callback option \<Rightarrow> app \<Rightarrow> app" where
  "speak text onEnd s =
     (if \<not> hasSynth s then (case onEnd of None \<Rightarrow> s | Some cb \<Rightarrow> runCallback cb s)
      else emit (Say text) (s\<lparr>utterances := [(text, onEnd)]\<rparr>))"

definition utteranceEnded :: "app \<Rightarrow> app" where
  \<comment> \<open>the end event of the utterance that is being spoken\<close>
  "utteranceEnded s =
     (case utterances s of
        [] \<Rightarrow> s
      | (text, onEnd) # rest \<Rightarrow>
          (let s1 = emit (Spoken text) (s\<lparr>utterances := rest\<rparr>)
           in case onEnd of None \<Rightarrow> s1 | Some cb \<Rightarrow> runCallback cb s1))"

section \<open>API helper\<close>

record body =
  message :: "string option"
  error :: "string option"

datatype response = FetchFailed | BodyUnreadable bool | Response bool body

definition refreshTasks :: "app \<Rightarrow> app" where
  \<comment> \<open>the request of \<open>refreshTasks\<close>; what it renders is not modelled, and it catches
      its own failures\<close>
  "refreshTasks s = emit (GetTasks (''/tasks?sort='' @ sortMode s)) s"

definition sendCommandJson :: "string \<Rightarrow> payload \<Rightarrow> app \<Rightarrow> app" where
  \<comment> \<open>up to \<open>await fetch(...)\<close>\<close>
  "sendCommandJson path pl s = emit (Post path pl) (s\<lparr>pendingPosts := Suc (pendingPosts s)\<rparr>)"

definition sendCommandJsonDone :: "response \<Rightarrow> app \<Rightarrow> app \<times> body option" where
  \<comment> \<open>from the outcome of \<open>fetch\<close> and \<open>res.json()\<close> to the value the call resolves to
      (\<open>None\<close> is \<open>null\<close>)\<close>
  "sendCommandJsonDone r s =
     (case r of
        Response ok data \<Rightarrow>
          if \<not> ok then
            (let err = (case error data of None \<Rightarrow> ''Unknown error''
                        | Some e \<Rightarrow> if e = [] then ''Unknown error'' else e)
             in (showStatus err ''red'' (speak err None s), None))
          else
            (let s1 = (case message data of None \<Rightarrow> s
                       | Some m \<Rightarrow> if m = [] then s else speak m None s)
             in (refreshTasks s1, Some data))
      | _ \<Rightarrow> (speak ''Network error.'' None (showStatus ''Network error.'' ''red'' s), None))"


section \<open>Confirmation dialog\<close>

definition performAction :: "action \<Rightarrow> app \<Rightarrow> app" where
  \<comment> \<open>the closures that \<open>askForClearAllConfirmation\<close> and
      \<open>askForClearCompletedConfirmation\<close> pass as \<open>onConfirm\<close> and \<open>onCancel\<close>\<close>
  "performAction a s =
     (case a of
        SendClear \<Rightarrow> sendCommandJson ''/clear'' [] s
      | SendClearCompleted \<Rightarrow> sendCommandJson ''/clear-completed'' [] s
      | NoAction \<Rightarrow> s)"

definition openConfirmDialog ::
  "string \<Rightarrow> action \<Rightarrow> action option \<Rightarrow> string option \<Rightarrow> app \<Rightarrow> app" where
  "openConfirmDialog msg onConfirm onCancel voicePrompt s =
     (let s1 = s\<lparr>inConfirmDialog := True, confirmOnConfirm := Some onConfirm,
                  confirmOnCancel := onCancel, dialogVisible := True\<rparr>;
          s2 = emit (DialogShown msg) s1;
          s3 = stopCommandRecognition (stopWakeRecognition s2)
      in if falsy voicePrompt then speak msg (Some StartConfirmCb) s3
         else (case voicePrompt of None \<Rightarrow> s3 | Some p \<Rightarrow> speak p (Some StartConfirmCb) s3))"

definition closeConfirmDialog :: "app \<Rightarrow> app" where
  \<comment> \<open>the overlay exists whenever this runs: it is called from the handlers of the
      dialog's buttons and of its recognition session only\<close>
  "closeConfirmDialog s =
     (let s1 = emit DialogHidden (s\<lparr>dialogVisible := False\<rparr>);
          s2 = (case confirmRecognition s1 of
                  None \<Rightarrow> s1
                | Some c \<Rightarrow> (recStop Confirm c s1)\<lparr>confirmRecognition := None\<rparr>);
          s3 = s2\<lparr>inConfirmDialog := False\<rparr>
      in if listening s3
         then emit (SetTimeout 300) (s3\<lparr>wakeTimers := Suc (wakeTimers s3)\<rparr>)
         else s3)"

definition handleConfirmYes :: "app \<Rightarrow> app" where
  "handleConfirmYes s =
     (let s1 = closeConfirmDialog s
      in case confirmOnConfirm s1 of None \<Rightarrow> s1 | Some a \<Rightarrow> performAction a s1)"

definition handleConfirmCancel :: "app \<Rightarrow> app" where
  "handleConfirmCancel s =
     (let s1 = speak ''Okay, I cancelled that action.'' None (closeConfirmDialog s)
      in case confirmOnCancel s1 of None \<Rightarrow> s1 | Some a \<Rightarrow> performAction a s1)"

definition clearAllPrompt :: string where
  "clearAllPrompt = ''Warning. This will delete all of your tasks. Are you sure?''"

definition askForClearAllConfirmation :: "app \<Rightarrow> app" where
  "askForClearAllConfirmation s =
     openConfirmDialog ''This will delete ALL tasks and cannot be undone. Are you sure?''
       SendClear (Some NoAction) (Some clearAllPrompt) s"

definition askForClearCompletedConfirmation :: "app \<Rightarrow> app" where
  "askForClearCompletedConfirmation s =
     openConfirmDialog ''This will delete all completed tasks and cannot be undone. Are you sure?''
       SendClearCompleted (Some NoAction)
       (Some ''You asked to clear all completed tasks. Are you sure?'') s"

definition confirmOnResult :: "string \<Rightarrow> app \<Rightarrow> app" where
  "confirmOnResult heard s =
     (let transcript = trim (toLowerCase heard)
      in if includesStr transcript ''confirm'' \<or> transcript = ''yes'' \<or>
            includesStr transcript ''yeah'' \<or> includesStr transcript ''sure''
         then handleConfirmYes s
         else if includesStr transcript ''cancel'' \<or> includesStr transcript ''no'' \<or>
                 includesStr transcript ''nope''
         then handleConfirmCancel s
         else speak ''I did not catch that. Can you repeat?'' (Some StartConfirmCb) s)"

definition confirmOnEnd :: "app \<Rightarrow> app" where
  \<comment> \<open>the handler reads the variable \<open>confirmRecognition\<close>, not the object that ended;
      on \<open>null\<close> the call throws inside the \<open>try\<close>\<close>
  "confirmOnEnd s =
     (if inConfirmDialog s
      then (case confirmRecognition s of None \<Rightarrow> s | Some c \<Rightarrow> tryStart Confirm c s)
      else s)"

section \<open>Listing helpers\<close>

record task =
  name :: string
  isDone :: bool

fun showNat :: "nat \<Rightarrow> string" where
  "showNat n =
     (if n < 10 then [char_of (48 + n)] else showNat (n div 10) @ [char_of (48 + n mod 10)])"

declare showNat.simps [simp del]

fun joinComma :: "string list \<Rightarrow> string" where
  "joinComma [] = []"
| "joinComma [x] = x"
| "joinComma (x # y # ys) = x @ '', '' @ joinComma (y # ys)"

definition startListing :: "listKind \<Rightarrow> app \<Rightarrow> app" where
  \<comment> \<open>\<open>listAllTasks\<close>, \<open>listPendingTasks\<close>, \<open>listCompletedTasks\<close> up to \<open>await fetch("/tasks")\<close>\<close>
  "startListing k s = emit (GetTasks ''/tasks'') (s\<lparr>pendingLists := pendingLists s @ [k]\<rparr>)"

definition listingDone :: "listKind \<Rightarrow> task list option \<Rightarrow> app \<Rightarrow> app" where
  "listingDone k r s =
     (case r of
        None \<Rightarrow> speak ''Failed to fetch tasks.'' None s
      | Some tasks \<Rightarrow>
          (case k of
             AllTasks \<Rightarrow>
               if tasks = []
               then showStatus ''No tasks found.'' ''orange'' (speak ''You have no tasks.'' None s)
               else speak (''You have '' @ showNat (length tasks) @ '' tasks: '' @
                           joinComma (map name tasks)) None s
           | PendingTasks \<Rightarrow>
               (let pending = filter (\<lambda>t. \<not> isDone t) tasks
                in if pending = []
                   then showStatus ''No pending tasks.'' ''green''
                          (speak ''You have no pending tasks.'' None s)
                   else speak (''You have '' @ showNat (length pending) @ '' pending tasks: '' @
                               joinComma (map name pending)) None s)
           | CompletedTasks \<Rightarrow>
               (let completed = filter (\<lambda>t. isDone t) tasks
                in if completed = []
                   then showStatus ''No completed tasks.'' ''gray''
                          (speak ''You have no completed tasks.'' None s)
                   else speak (''You have '' @ showNat (length completed) @
                               '' completed tasks: '' @ joinComma (map name completed)) None s)))"


section \<open>Voice commands\<close>

fun firstSome :: "('a \<Rightarrow> 'b option) \<Rightarrow> 'a list \<Rightarrow> 'b option" where
  "firstSome f [] = None"
| "firstSome f (x # xs) = (case f x of Some y \<Rightarrow> Some y | None \<Rightarrow> firstSome f xs)"

definition stripPrefixCI :: "string \<Rightarrow> string \<Rightarrow> string" where
  \<comment> \<open>\<open>cmd.replace(/^\s*P\s*/i, "")\<close> for a lower-case literal \<open>P\<close>\<close>
  "stripPrefixCI p cmd =
     (let c1 = dropWhile isWhite cmd
      in if startsWith (toLowerCase c1) p then dropWhile isWhite (drop (length p) c1) else cmd)"

definition tailDone :: "string \<Rightarrow> bool" where
  \<comment> \<open>\<open>\s+(?:as\s+)?done$\<close> matched against the whole of the rest\<close>
  "tailDone r =
     (r \<noteq> [] \<and> isWhite (hd r) \<and>
      (let r1 = dropWhile isWhite r
       in r1 = ''done'' \<or>
          (startsWith r1 ''as'' \<and>
           (let r2 = drop 2 r1
            in r2 \<noteq> [] \<and> isWhite (hd r2) \<and> dropWhile isWhite r2 = ''done''))))"

fun lazyGroup :: "string \<Rightarrow> string \<Rightarrow> string option" where
  \<comment> \<open>\<open>(.+?)\<close> followed by \<open>tailDone\<close>: the shortest group first\<close>
  "lazyGroup acc [] = None"
| "lazyGroup acc (c # cs) =
     (if isLineTerm c then None
      else if tailDone cs then Some (acc @ [c])
      else lazyGroup (acc @ [c]) cs)"

definition markMatch :: "string \<Rightarrow> string option" where
  \<comment> \<open>group 1 of \<open>/^mark\s+(.+?)\s+(?:as\s+)?done$/i\<close>; the greedy \<open>\s+\<close> gives white space
      back to the group one character at a time\<close>
  "markMatch lower =
     (if startsWith lower ''mark''
      then (let r = drop 4 lower; m = length (takeWhile isWhite r)
            in firstSome (\<lambda>k. lazyGroup [] (drop k r)) (rev [1..<Suc m]))
      else None)"

definition deleteMatch :: "string \<Rightarrow> string option" where
  \<comment> \<open>group 1 of \<open>/^(?:delete|remove)\s+(.+)$/i\<close>\<close>
  "deleteMatch lower =
     (if startsWith lower ''delete'' \<or> startsWith lower ''remove''
      then (let r = drop 6 lower; m = length (takeWhile isWhite r)
            in firstSome (\<lambda>k. let g = drop k r
                               in if g \<noteq> [] \<and> \<not> list_ex isLineTerm g then Some g else None)
                 (rev [1..<Suc m]))
      else None)"

definition setSortMode :: "string \<Rightarrow> string \<Rightarrow> app \<Rightarrow> app" where
  "setSortMode mode announcement s = refreshTasks (speak announcement None (s\<lparr>sortMode := mode\<rparr>))"

definition processCommand :: "string option \<Rightarrow> app \<Rightarrow> app" where
  "processCommand cmd0 s =
     (case cmd0 of
        None \<Rightarrow> s
      | Some c0 \<Rightarrow>
          if c0 = [] then s
          else (let cmd = trim c0
                in if cmd = [] then s
                   else (let lower = toLowerCase cmd
                         in if startsWith lower ''add '' then
                              (let name = trim (stripPrefixCI ''add'' cmd)
                               in if name = [] then speak ''What should I add?'' None s
                                  else sendCommandJson ''/add'' [(''task'', name)] s)
                            else if startsWith lower ''remind me to '' then
                              (let name = trim (stripPrefixCI ''remind me to'' cmd)
                               in if name = [] then speak ''What should I remind you to do?'' None s
                                  else sendCommandJson ''/add'' [(''task'', name)] s)
                            else
                              (case markMatch lower of
                                 Some g \<Rightarrow> sendCommandJson ''/mark-by-name'' [(''name'', trim g)] s
                               | None \<Rightarrow>
                              (case deleteMatch lower of
                                 Some g \<Rightarrow> sendCommandJson ''/delete-by-name'' [(''name'', trim g)] s
                               | None \<Rightarrow>
                              if includesStr lower ''clear completed'' \<or>
                                 includesStr lower ''remove completed''
                              then askForClearCompletedConfirmation s
                              else if includesStr lower ''clear all'' \<or> includesStr lower ''remove all''
                              then askForClearAllConfirmation s
                              else if includesStr lower ''list all tasks'' \<or>
                                      includesStr lower ''what are my tasks''
                              then startListing AllTasks s
                              else if includesStr lower ''list pending'' \<or>
                                      includesStr lower ''pending tasks''
                              then startListing PendingTasks s
                              else if includesStr lower ''list completed'' \<or>
                                      includesStr lower ''completed tasks''
                              then startListing CompletedTasks s
                              else if includesStr lower ''sort by priority'' \<or>
                                      includesStr lower ''order by priority''
                              then setSortMode ''priority'' ''Sorting by priority.'' s
                              else if includesStr lower ''sort by category'' \<or>
                                      includesStr lower ''order by category''
                              then setSortMode ''category'' ''Sorting by category.'' s
                              else if includesStr lower ''sort by due'' \<or>
                                      includesStr lower ''sort by date'' \<or>
                                      includesStr lower ''sort by deadline'' \<or>
                                      includesStr lower ''order by due'' \<or>
                                      includesStr lower ''order by date'' \<or>
                                      includesStr lower ''order by deadline''
                              then setSortMode ''due'' ''Sorting by due date.'' s
                              else if includesStr lower ''sort by created'' \<or>
                                      includesStr lower ''sort by added'' \<or>
                                      includesStr lower ''order by created'' \<or>
                                      includesStr lower ''order by added''
                              then setSortMode ''created'' ''Sorting by created time.'' s
                              else speak ''Sorry, I did not understand that.'' None s)))))"

subsection \<open>The interpreter as an ordered table of patterns\<close>

text \<open>
  The specification describes command interpretation as a list of intent patterns that
  are tried in a fixed order. The table below follows that description; each entry maps the
  trimmed command and its lower-case form to the intent it recognises, and \<open>dispatch\<close> is
  what the script does for an intent.
\<close>

datatype intent =
    AddTask string
  | PromptForMissingArgument string
  | MarkDone string
  | DeleteByName string
  | ClearCompleted
  | ClearAll
  | ListAll
  | ListPending
  | ListCompleted
  | SetSortMode string string
  | Unrecognized

definition anyIncluded :: "string \<Rightarrow> string list \<Rightarrow> bool" where
  "anyIncluded lower phrases = list_ex (\<lambda>p. includesStr lower p) phrases"

definition addPattern :: "string \<Rightarrow> string \<Rightarrow> intent option" where
  "addPattern cmd lower =
     (if startsWith lower ''add '' then
        (let name = trim (stripPrefixCI ''add'' cmd)
         in Some (if name = [] then PromptForMissingArgument ''What should I add?''
                  else AddTask name))
      else if startsWith lower ''remind me to '' then
        (let name = trim (stripPrefixCI ''remind me to'' cmd)
         in Some (if name = [] then PromptForMissingArgument ''What should I remind you to do?''
                  else AddTask name))
      else None)"

definition markPattern :: "string \<Rightarrow> string \<Rightarrow> intent option" where
  "markPattern cmd lower = map_option (\<lambda>g. MarkDone (trim g)) (markMatch lower)"

definition deletePattern :: "string \<Rightarrow> string \<Rightarrow> intent option" where
  "deletePattern cmd lower = map_option (\<lambda>g. DeleteByName (trim g)) (deleteMatch lower)"

definition phrasePattern :: "string list \<Rightarrow> intent \<Rightarrow> string \<Rightarrow> string \<Rightarrow> intent option" where
  "phrasePattern phrases i cmd lower = (if anyIncluded lower phrases then Some i else None)"

definition intentPatterns :: "(string \<Rightarrow> string \<Rightarrow> intent option) list" where
  "intentPatterns =
     [addPattern,
      markPattern,
      deletePattern,
      phrasePattern [''clear completed'', ''remove completed''] ClearCompleted,
      phrasePattern [''clear all'', ''remove all''] ClearAll,
      phrasePattern [''list all tasks'', ''what are my tasks''] ListAll,
      phrasePattern [''list pending'', ''pending tasks''] ListPending,
      phrasePattern [''list completed'', ''completed tasks''] ListCompleted,
      phrasePattern [''sort by priority'', ''order by priority'']
        (SetSortMode ''priority'' ''Sorting by priority.''),
      phrasePattern [''sort by category'', ''order by category'']
        (SetSortMode ''category'' ''Sorting by category.''),
      phrasePattern [''sort by due'', ''sort by date'', ''sort by deadline'',
                     ''order by due'', ''order by date'', ''order by deadline'']
        (SetSortMode ''due'' ''Sorting by due date.''),
      phrasePattern [''sort by created'', ''sort by added'', ''order by created'', ''order by added'']
        (SetSortMode ''created'' ''Sorting by created time.'')]"

definition firstMatch ::
  "(string \<Rightarrow> string \<Rightarrow> intent option) list \<Rightarrow> string \<Rightarrow> intent" where
  "firstMatch ps cmd =
     (case firstSome (\<lambda>p. p cmd (toLowerCase cmd)) ps of Some i \<Rightarrow> i | None \<Rightarrow> Unrecognized)"

definition interpretCommand :: "string \<Rightarrow> intent" where
  "interpretCommand cmd = firstMatch intentPatterns cmd"

definition dispatch :: "intent \<Rightarrow> app \<Rightarrow> app" where
  "dispatch i s =
     (case i of
        AddTask n \<Rightarrow> sendCommandJson ''/add'' [(''task'', n)] s
      | PromptForMissingArgument q \<Rightarrow> speak q None s
      | MarkDone n \<Rightarrow> sendCommandJson ''/mark-by-name'' [(''name'', n)] s
      | DeleteByName n \<Rightarrow> sendCommandJson ''/delete-by-name'' [(''name'', n)] s
      | ClearCompleted \<Rightarrow> askForClearCompletedConfirmation s
      | ClearAll \<Rightarrow> askForClearAllConfirmation s
      | ListAll \<Rightarrow> startListing AllTasks s
      | ListPending \<Rightarrow> startListing PendingTasks s
      | ListCompleted \<Rightarrow> startListing CompletedTasks s
      | SetSortMode m a \<Rightarrow> setSortMode m a s
      | Unrecognized \<Rightarrow> speak ''Sorry, I did not understand that.'' None s)"


section \<open>Speech recognition setup\<close>

definition initRecognizers :: "app \<Rightarrow> app" where
  "initRecognizers s =
     (if \<not> hasRecognition s then showStatus ''Web Speech API not supported.'' ''red'' s
      else (let w = length (sessions s Wake); c = length (sessions s Command)
            in (newSession Command (newSession Wake s))
                 \<lparr>wakeRecognition := Some w, commandRecognition := Some c\<rparr>))"

definition wakeDetected :: "string \<Rightarrow> app \<Rightarrow> bool" where
  \<comment> \<open>the condition of \<open>wakeRecognition.onresult\<close>\<close>
  "wakeDetected heard s \<longleftrightarrow>
     wakeWordHeard (Some (trim heard)) \<and> \<not> inCommandMode s \<and> \<not> inConfirmDialog s"

definition wakeOnResult :: "string \<Rightarrow> app \<Rightarrow> app" where
  \<comment> \<open>without speech synthesis the construction of the utterance throws and the
      handler ends there\<close>
  "wakeOnResult heard s =
     (if wakeDetected heard s then
        (let s1 = stopWakeRecognition (s\<lparr>inCommandMode := True\<rparr>)
         in if \<not> hasSynth s1 then s1
            else (let s2 = showStatus ''Listening for command...'' ''blue'' s1
                  in emit (Say ''Yes?'')
                       (s2\<lparr>utterances := utterances s2 @ [(''Yes?'', Some StartCommandCb)]\<rparr>)))
      else s)"

definition wakeOnEnd :: "app \<Rightarrow> app" where
  "wakeOnEnd s =
     (let s1 = s\<lparr>wakeRunning := False\<rparr>
      in if \<not> inCommandMode s1 \<and> listening s1 \<and> \<not> inConfirmDialog s1
         then emit (SetTimeout 500) (s1\<lparr>wakeTimers := Suc (wakeTimers s1)\<rparr>)
         else s1)"

definition commandOnResult :: "string \<Rightarrow> app \<Rightarrow> app" where
  "commandOnResult heard s =
     processCommand (Some heard)
       (showStatus (''You said: '' @ [CHR 0x22] @ heard @ [CHR 0x22]) ''purple'' s)"

definition commandOnEnd :: "app \<Rightarrow> app" where
  "commandOnEnd s =
     (let s1 = showStatus ''Say 'Hey To Do' to start again.'' ''green'' (s\<lparr>inCommandMode := False\<rparr>)
      in if listening s1 \<and> \<not> inConfirmDialog s1
         then emit (SetTimeout 500) (s1\<lparr>wakeTimers := Suc (wakeTimers s1)\<rparr>)
         else s1)"

definition commandOnError :: "app \<Rightarrow> app" where
  "commandOnError s =
     (let s1 = s\<lparr>inCommandMode := False\<rparr>
      in if \<not> inConfirmDialog s1 then startWakeRecognition s1 else s1)"

section \<open>Mute toggle\<close>

definition muteClick :: "app \<Rightarrow> app" where
  "muteClick s =
     (let s1 = s\<lparr>listening := \<not> listening s\<rparr>
      in if listening s1
         then showStatus ''Say 'Hey To Do' to start.'' ''green''
                (startWakeRecognition (initRecognizers s1))
         else showStatus ''Voice paused. Use manual input.'' ''gray''
                (stopCommandRecognition (stopWakeRecognition s1)))"

section \<open>Events\<close>

text \<open>
  Everything runs on one thread, so a run of the application is a sequence of events, each
  handled to completion by \<open>step\<close>. \<open>enabled\<close> says which events the browser can deliver:
  a recognition object delivers results, errors and its end event from \<open>start()\<close> until its
  end event (also after \<open>stop()\<close>, which only requests the end); the yes and no buttons can
  be clicked while the dialog is displayed (a click outside the box is a click on no).
\<close>

datatype event =
    Result kind nat string
  | End kind nat
  | Error kind nat string
  | UtteranceEnd
  | TimerFires
  | MuteClick
  | ClearClick
  | ConfirmYesClick
  | ConfirmNoClick
  | PostDone response
  | TasksDone listKind "task list option"

definition sessionEnded :: "kind \<Rightarrow> nat \<Rightarrow> app \<Rightarrow> app" where
  "sessionEnded k i s = s\<lparr>sessions := (sessions s)(k := (sessions s k)[i := Idle])\<rparr>"

fun step :: "event \<Rightarrow> app \<Rightarrow> app" where
  "step (Result Wake i heard) s = wakeOnResult heard s"
| "step (Result Command i heard) s = commandOnResult heard s"
| "step (Result Confirm i heard) s = confirmOnResult heard s"
| "step (End Wake i) s = wakeOnEnd (sessionEnded Wake i s)"
| "step (End Command i) s = commandOnEnd (sessionEnded Command i s)"
| "step (End Confirm i) s = confirmOnEnd (sessionEnded Confirm i s)"
| "step (Error Wake i code) s = s"
| "step (Error Command i code) s = commandOnError s"
| "step (Error Confirm i code) s = s"
| "step UtteranceEnd s = utteranceEnded s"
| "step TimerFires s = startWakeRecognition (s\<lparr>wakeTimers := wakeTimers s - 1\<rparr>)"
| "step MuteClick s = muteClick s"
| "step ClearClick s = askForClearAllConfirmation s"
| "step ConfirmYesClick s = handleConfirmYes s"
| "step ConfirmNoClick s = handleConfirmCancel s"
| "step (PostDone r) s = fst (sendCommandJsonDone r (s\<lparr>pendingPosts := pendingPosts s - 1\<rparr>))"
| "step (TasksDone k r) s = listingDone k r (s\<lparr>pendingLists := remove1 k (pendingLists s)\<rparr>)"

definition live :: "kind \<Rightarrow> nat \<Rightarrow> app \<Rightarrow> bool" where
  "live k i s \<longleftrightarrow> i < length (sessions s k) \<and> sessions s k ! i \<noteq> Idle"

fun enabled :: "event \<Rightarrow> app \<Rightarrow> bool" where
  "enabled (Result k i heard) s = live k i s"
| "enabled (End k i) s = live k i s"
| "enabled (Error k i code) s = live k i s"
| "enabled UtteranceEnd s = (utterances s \<noteq> [])"
| "enabled TimerFires s = (0 < wakeTimers s)"
| "enabled MuteClick s = True"
| "enabled ClearClick s = True"
| "enabled ConfirmYesClick s = dialogVisible s"
| "enabled ConfirmNoClick s = dialogVisible s"
| "enabled (PostDone r) s = (0 < pendingPosts s)"
| "enabled (TasksDone k r) s = (k \<in> set (pendingLists s))"

fun run :: "event list \<Rightarrow> app \<Rightarrow> app" where
  "run [] s = s"
| "run (e # es) s = run es (step e s)"

fun feasible :: "event list \<Rightarrow> app \<Rightarrow> bool" where
  "feasible [] s = True"
| "feasible (e # es) s = (enabled e s \<and> feasible es (step e s))"

definition emitted :: "event \<Rightarrow> app \<Rightarrow> effect list" where
  \<comment> \<open>what the handling of one event adds to the trace\<close>
  "emitted e s = drop (length (trace s)) (trace (step e s))"

definition initialState :: "bool \<Rightarrow> bool \<Rightarrow> app" where
  "initialState rec syn =
     \<lparr>hasRecognition = rec, hasSynth = syn, listening = True,
      wakeRecognition = None, commandRecognition = None,
      wakeRunning = False, inCommandMode = False, sortMode = ''created'',
      inConfirmDialog = False, confirmRecognition = None,
      confirmOnConfirm = None, confirmOnCancel = None, dialogVisible = False,
      sessions = (\<lambda>k. []), utterances = [], wakeTimers = 0, pendingPosts = 0,
      pendingLists = [], trace = []\<rparr>"

definition boot :: "bool \<Rightarrow> bool \<Rightarrow> app" where
  \<comment> \<open>the statements at the end of the script\<close>
  "boot rec syn =
     showStatus ''Say 'Hey To Do' to start.'' ''green''
       (refreshTasks (startWakeRecognition (initRecognizers (initialState rec syn))))"

section \<open>The earlier copy of the dialog\<close>

text \<open>
  The repository holds a second copy of the script. Its \<open>speak\<close> takes no callback, and its
  \<open>openConfirmDialog\<close> creates and starts the confirmation session in the same call, right
  after \<open>speak\<close>; the handler of the session's results asks to repeat without a callback.
\<close>

definition speak_part000 :: "string \<Rightarrow> app \<Rightarrow> app" where
  "speak_part000 text s =
     (if \<not> hasSynth s then s else emit (Say text) (s\<lparr>utterances := [(text, None)]\<rparr>))"

definition openConfirmDialog_part000 ::
  "string \<Rightarrow> action \<Rightarrow> action option \<Rightarrow> string option \<Rightarrow> app \<Rightarrow> app" where
  "openConfirmDialog_part000 msg onConfirm onCancel voicePrompt s =
     (let s1 = s\<lparr>inConfirmDialog := True, confirmOnConfirm := Some onConfirm,
                  confirmOnCancel := onCancel, dialogVisible := True\<rparr>;
          s2 = emit (DialogShown msg) s1;
          s3 = stopCommandRecognition (stopWakeRecognition s2);
          s4 = (if falsy voicePrompt then speak_part000 msg s3
                else (case voicePrompt of None \<Rightarrow> s3 | Some p \<Rightarrow> speak_part000 p s3))
      in if hasRecognition s4
         then (let i = length (sessions s4 Confirm);
                   s5 = (newSession Confirm s4)\<lparr>confirmRecognition := Some i\<rparr>
               in tryStart Confirm i s5)
         else s4)"

definition repeatPrompt_part000 :: string where
  "repeatPrompt_part000 = ''I didn't catch that. Can you repeat?''"

definition handleConfirmCancel_part000 :: "app \<Rightarrow> app" where
  "handleConfirmCancel_part000 s =
     (let s1 = speak_part000 ''Okay, I cancelled that action.'' (closeConfirmDialog s)
      in case confirmOnCancel s1 of None \<Rightarrow> s1 | Some a \<Rightarrow> performAction a s1)"

definition confirmOnResult_part000 :: "string \<Rightarrow> app \<Rightarrow> app" where
  \<comment> \<open>\<open>confirmRecognition.onresult\<close> of the earlier copy; \<open>closeConfirmDialog\<close>,
      \<open>handleConfirmYes\<close> and the \<open>onend\<close> handler are the same in both copies\<close>
  "confirmOnResult_part000 heard s =
     (let transcript = trim (toLowerCase heard)
      in if includesStr transcript ''confirm'' \<or> transcript = ''yes'' \<or>
            includesStr transcript ''yeah'' \<or> includesStr transcript ''sure''
         then handleConfirmYes s
         else if includesStr transcript ''cancel'' \<or> includesStr transcript ''no'' \<or>
                 includesStr transcript ''nope''
         then handleConfirmCancel_part000 s
         else speak_part000 repeatPrompt_part000 s)"

definition askForClearAllConfirmation_part000 :: "app \<Rightarrow> app" where
  "askForClearAllConfirmation_part000 s =
     openConfirmDialog_part000 ''This will delete ALL tasks and cannot be undone. Are you sure?''
       SendClear (Some NoAction) (Some clearAllPrompt) s"

section \<open>State predicates\<close>

definition isRunning :: "kind \<Rightarrow> nat \<Rightarrow> app \<Rightarrow> bool" where
  "isRunning k i s \<longleftrightarrow> i < length (sessions s k) \<and> sessions s k ! i = Running"

definition saidYes :: "string \<Rightarrow> bool" where
  \<comment> \<open>the first condition of \<open>confirmRecognition.onresult\<close>\<close>
  "saidYes heard \<longleftrightarrow>
     (let transcript = trim (toLowerCase heard)
      in includesStr transcript ''confirm'' \<or> transcript = ''yes'' \<or>
         includesStr transcript ''yeah'' \<or> includesStr transcript ''sure'')"

definition saidNo :: "string \<Rightarrow> bool" where
  \<comment> \<open>its second condition\<close>
  "saidNo heard \<longleftrightarrow>
     (let transcript = trim (toLowerCase heard)
      in includesStr transcript ''cancel'' \<or> includesStr transcript ''no'' \<or>
         includesStr transcript ''nope'')"

definition repeatPrompt :: string where
  "repeatPrompt = ''I did not catch that. Can you repeat?''"

definition cancelledText :: string where
  "cancelledText = ''Okay, I cancelled that action.''"

section \<open>Facts about strings\<close>

lemma startsWith_iff: "startsWith s p \<longleftrightarrow> (\<exists>b. s = p @ b)"
  unfolding startsWith_def
  by (metis append_eq_conv_conj append_take_drop_id)

lemma includesStr_iff: "includesStr s v \<longleftrightarrow> (\<exists>a b. s = a @ v @ b)"
proof (induction s)
  case Nil
  show ?case by auto
next
  case (Cons c cs)
  show ?case
  proof
    assume "includesStr (c # cs) v"
    then consider "startsWith (c # cs) v" | "includesStr cs v" by auto
    then show "\<exists>a b. c # cs = a @ v @ b"
    proof cases
      case 1
      then obtain b where "c # cs = v @ b" by (auto simp: startsWith_iff)
      then have "c # cs = [] @ v @ b" by simp
      then show ?thesis by blast
    next
      case 2
      then obtain a b where "cs = a @ v @ b" using Cons.IH by auto
      then have "c # cs = (c # a) @ v @ b" by simp
      then show ?thesis by blast
    qed
  next
    assume "\<exists>a b. c # cs = a @ v @ b"
    then obtain a b where ab: "c # cs = a @ v @ b" by blast
    show "includesStr (c # cs) v"
    proof (cases a)
      case Nil
      with ab have "startsWith (c # cs) v" by (auto simp: startsWith_iff)
      then show ?thesis by simp
    next
      case (Cons x a')
      with ab have "cs = a' @ v @ b" by simp
      then have "includesStr cs v" using Cons.IH by blast
      then show ?thesis by simp
    qed
  qed
qed

lemma collapseFrom_flag_irrelevant:
  "x \<noteq> [] \<Longrightarrow> \<not> isWhite (hd x) \<Longrightarrow> collapseFrom f x = collapseFrom False x"
  by (cases x) auto

lemma collapseFrom_before_word:
  "x \<noteq> [] \<Longrightarrow> \<not> isWhite (hd x) \<Longrightarrow>
   collapseFrom f (a @ x) = collapseFrom f a @ collapseFrom False x"
proof (induction a arbitrary: f)
  case Nil
  then show ?case using collapseFrom_flag_irrelevant [of x f] by simp
next
  case (Cons c a)
  then show ?case by simp
qed

lemma collapseFrom_after_word:
  "p \<noteq> [] \<Longrightarrow> \<not> isWhite (last p) \<Longrightarrow>
   collapseFrom f (p @ b) = collapseFrom f p @ collapseFrom False b"
proof (induction p arbitrary: f)
  case Nil
  then show ?case by simp
next
  case (Cons c p)
  show ?case
  proof (cases "p = []")
    case True
    with Cons.prems show ?thesis by simp
  next
    case False
    with Cons.prems have "\<not> isWhite (last p)" by simp
    with False Cons.IH show ?thesis by simp
  qed
qed

lemma trimStart_keeps:
  "p \<noteq> [] \<Longrightarrow> \<not> isWhite (hd p) \<Longrightarrow> \<exists>a'. trimStart (a @ p @ b) = a' @ p @ b"
proof (induction a)
  case Nil
  then have "trimStart (p @ b) = [] @ p @ b"
    by (cases p) (auto simp: trimStart_def)
  then show ?case by (metis append_Nil)
next
  case (Cons c a)
  show ?case
  proof (cases "isWhite c")
    case True
    then have "trimStart ((c # a) @ p @ b) = trimStart (a @ p @ b)"
      by (simp add: trimStart_def)
    with Cons show ?thesis by simp
  next
    case False
    then have "trimStart ((c # a) @ p @ b) = (c # a) @ p @ b"
      by (simp add: trimStart_def)
    then show ?thesis by blast
  qed
qed

lemma trimEnd_keeps:
  assumes "p \<noteq> []" "\<not> isWhite (last p)"
  shows "\<exists>b'. trimEnd (a @ p @ b) = a @ p @ b'"
proof -
  have "rev p \<noteq> []" "\<not> isWhite (hd (rev p))"
    using assms by (simp_all add: hd_rev)
  from trimStart_keeps [OF this, of "rev b" "rev a"]
  obtain a' where "dropWhile isWhite (rev b @ rev p @ rev a) = a' @ rev p @ rev a"
    by (auto simp: trimStart_def)
  then have "trimEnd (a @ p @ b) = rev (a' @ rev p @ rev a)"
    by (simp add: trimEnd_def)
  then have "trimEnd (a @ p @ b) = a @ p @ rev a'" by simp
  then show ?thesis by blast
qed

lemma trim_keeps:
  assumes "p \<noteq> []" "\<not> isWhite (hd p)" "\<not> isWhite (last p)"
  shows "\<exists>a' b'. trim (a @ p @ b) = a' @ p @ b'"
proof -
  obtain a' where "trimStart (a @ p @ b) = a' @ p @ b"
    using trimStart_keeps [OF assms(1,2)] by blast
  moreover obtain b' where "trimEnd (a' @ p @ b) = a' @ p @ b'"
    using trimEnd_keeps [OF assms(1,3)] by blast
  ultimately show ?thesis by (auto simp: trim_def)
qed

lemma trim_empty_iff: "trim t = [] \<longleftrightarrow> (\<forall>c\<in>set t. isWhite c)"
proof -
  have "trim t = [] \<longleftrightarrow> (\<forall>c\<in>set (dropWhile isWhite t). isWhite c)"
    by (simp add: trim_def trimEnd_def trimStart_def dropWhile_eq_Nil_conv)
  also have "\<dots> \<longleftrightarrow> (\<forall>c\<in>set t. isWhite c)"
  proof
    assume r: "\<forall>c\<in>set (dropWhile isWhite t). isWhite c"
    show "\<forall>c\<in>set t. isWhite c"
    proof
      fix c assume "c \<in> set t"
      then have "c \<in> set (takeWhile isWhite t) \<or> c \<in> set (dropWhile isWhite t)"
        by (metis Un_iff set_append takeWhile_dropWhile_id)
      then show "isWhite c" using r by (auto dest: set_takeWhileD)
    qed
  next
    assume "\<forall>c\<in>set t. isWhite c"
    then show "\<forall>c\<in>set (dropWhile isWhite t). isWhite c"
      by (auto dest: set_dropWhileD)
  qed
  finally show ?thesis .
qed

section \<open>Wake word\<close>

lemma white_toLowerChar: "isWhite c \<Longrightarrow> toLowerChar c = c"
  by (auto simp: isWhite_def toLowerChar_def)

lemma punct_toLowerChar: "isPunct c \<Longrightarrow> toLowerChar c = c"
  by (auto simp: isPunct_def toLowerChar_def)

lemma toLowerChar_code:
  "toLowerChar c \<noteq> c \<Longrightarrow>
     (97 \<le> (of_char (toLowerChar c) :: nat) \<and> (of_char (toLowerChar c) :: nat) \<le> 122) \<or>
     (224 \<le> (of_char (toLowerChar c) :: nat) \<and> (of_char (toLowerChar c) :: nat) \<le> 254)"
  by (auto simp: toLowerChar_def Let_def split: if_splits)

lemma white_code: "isWhite c \<Longrightarrow> (of_char c :: nat) \<in> {9, 10, 11, 12, 13, 32, 160}"
  by (auto simp: isWhite_def)

lemma punct_code: "isPunct c \<Longrightarrow> (of_char c :: nat) \<in> {46, 44, 33, 63}"
  by (auto simp: isPunct_def)

lemma toLowerChar_white: "isWhite (toLowerChar c) \<Longrightarrow> isWhite c"
proof (cases "toLowerChar c = c")
  case True
  assume "isWhite (toLowerChar c)"
  with True show ?thesis by simp
next
  case False
  assume "isWhite (toLowerChar c)"
  from white_code [OF this] toLowerChar_code [OF False] show ?thesis by auto
qed

lemma toLowerChar_punct: "isPunct (toLowerChar c) \<Longrightarrow> isPunct c"
proof (cases "toLowerChar c = c")
  case True
  assume "isPunct (toLowerChar c)"
  with True show ?thesis by simp
next
  case False
  assume "isPunct (toLowerChar c)"
  from punct_code [OF this] toLowerChar_code [OF False] show ?thesis by auto
qed

lemma normalize_map: "replacePunct (toLowerCase t) = map normChar t"
  by (simp add: replacePunct_def toLowerCase_def normChar_def isPunct_def)

lemma normChar_white: "isWhite (normChar c) \<longleftrightarrow> isSeparator c"
proof
  assume w: "isWhite (normChar c)"
  show "isSeparator c"
  proof (cases "isPunct (toLowerChar c)")
    case True
    then show ?thesis by (simp add: isSeparator_def toLowerChar_punct)
  next
    case False
    with w have "isWhite (toLowerChar c)" by (simp add: normChar_def)
    then show ?thesis by (simp add: isSeparator_def toLowerChar_white)
  qed
next
  assume "isSeparator c"
  then consider "isPunct c" | "isWhite c" by (auto simp: isSeparator_def)
  then show "isWhite (normChar c)"
  proof cases
    case 1
    then show ?thesis by (simp add: normChar_def punct_toLowerChar isWhite_def)
  next
    case 2
    then show ?thesis by (auto simp: normChar_def white_toLowerChar isWhite_def)
  qed
qed

lemma normChar_letter: "\<not> isWhite (normChar c) \<Longrightarrow> normChar c = toLowerChar c"
  by (auto simp: normChar_def isWhite_def)

lemma normChar_eq: "toLowerChar c = d \<Longrightarrow> \<not> isPunct d \<Longrightarrow> normChar c = d"
  by (simp add: normChar_def)

lemma space_white: "isWhite (CHR '' '')"
  by (simp add: isWhite_def)

text \<open>From a spelling to the normal form.\<close>

lemma spells_collapse:
  "spells q p \<Longrightarrow> list_all (\<lambda>d. d = CHR '' '' \<or> (\<not> isWhite d \<and> \<not> isPunct d)) p \<Longrightarrow>
   p \<noteq> [] \<Longrightarrow> \<not> isWhite (last p) \<Longrightarrow>
   collapseFrom f (map normChar q @ b) = collapseFrom f p @ collapseFrom False b"
proof (induction q arbitrary: p f)
  case Nil
  then show ?case by (cases p) simp_all
next
  case (Cons c q)
  from Cons.prems(1,3) obtain d p' where p: "p = d # p'" by (cases p) auto
  show ?case
  proof (cases "d = CHR '' ''")
    case True
    with Cons.prems(1) p have sep: "isSeparator c" and s: "spells q p' \<or> spells q (d # p')"
      by simp_all
    from sep have w: "isWhite (normChar c)" by (simp add: normChar_white)
    from True Cons.prems(3,4) p have p'ne: "p' \<noteq> []" by (auto simp: space_white)
    have ok': "list_all (\<lambda>d. d = CHR '' '' \<or> (\<not> isWhite d \<and> \<not> isPunct d)) p'"
      using Cons.prems(2) p by simp
    have l': "\<not> isWhite (last p')" using Cons.prems(4) p p'ne by simp
    have "collapseFrom True (map normChar q @ b) = collapseFrom True p' @ collapseFrom False b"
    proof -
      from s show ?thesis
      proof
        assume "spells q p'"
        from Cons.IH [OF this ok' p'ne l'] show ?thesis .
      next
        assume "spells q (d # p')"
        from Cons.IH [OF this, of True] Cons.prems(2,4) p True
        show ?thesis by (simp add: space_white)
      qed
    qed
    with w True p show ?thesis by (simp add: space_white)
  next
    case False
    with Cons.prems(1) p have l: "toLowerChar c = d" and s: "spells q p'" by simp_all
    from Cons.prems(2) p False have dn: "\<not> isWhite d" "\<not> isPunct d" by simp_all
    from l dn have n: "normChar c = d" by (simp add: normChar_eq)
    show ?thesis
    proof (cases "p' = []")
      case True
      with s have "q = []" by (cases q) simp_all
      with True n dn p show ?thesis by simp
    next
      case p'ne: False
      have ok': "list_all (\<lambda>d. d = CHR '' '' \<or> (\<not> isWhite d \<and> \<not> isPunct d)) p'"
        using Cons.prems(2) p by simp
      have l': "\<not> isWhite (last p')" using Cons.prems(4) p p'ne by simp
      from Cons.IH [OF s ok' p'ne l', of False] n dn p show ?thesis by simp
    qed
  qed
qed

lemma spells_hd:
  "spells q p \<Longrightarrow> p \<noteq> [] \<Longrightarrow> \<not> isWhite (hd p) \<Longrightarrow> \<not> isPunct (hd p) \<Longrightarrow>
   q \<noteq> [] \<and> normChar (hd q) = hd p"
  by (cases q; cases p) (auto simp: space_white normChar_eq split: if_splits)

lemma spelling_heard:
  assumes c: "cleanPhrase p" and s: "spells q p"
  shows "\<exists>a b. normalizeTranscript (pre @ q @ post) = a @ p @ b"
proof -
  from c have ne: "p \<noteq> []" and h: "\<not> isWhite (hd p)" and l: "\<not> isWhite (last p)"
    and ok: "list_all (\<lambda>d. d = CHR '' '' \<or> (\<not> isWhite d \<and> \<not> isPunct d)) p"
    and cf: "collapseFrom False p = p"
    by (simp_all add: cleanPhrase_def)
  from ok ne h have hp: "\<not> isPunct (hd p)" by (cases p) (auto simp: space_white)
  from spells_hd [OF s ne h hp] have qne: "q \<noteq> []" and hq: "normChar (hd q) = hd p" by simp_all
  let ?x = "map normChar q @ map normChar post"
  have x: "?x \<noteq> []" "\<not> isWhite (hd ?x)"
    using qne hq h by (simp_all add: hd_append hd_map)
  have "collapseWhite (map normChar (pre @ q @ post)) =
        collapseFrom False (map normChar pre) @ collapseFrom False ?x"
    using collapseFrom_before_word [OF x, of False "map normChar pre"]
    by (simp add: collapseWhite_def)
  also have "collapseFrom False ?x = p @ collapseFrom False (map normChar post)"
    using spells_collapse [OF s ok ne l, of False "map normChar post"] cf by simp
  finally have "normalizeTranscript (pre @ q @ post) =
      trim (collapseFrom False (map normChar pre) @ p @ collapseFrom False (map normChar post))"
    by (simp add: normalizeTranscript_def normalize_map)
  then show ?thesis using trim_keeps [OF ne h l] by simp
qed

text \<open>From the normal form back to a spelling.\<close>

lemma collapse_spells_prefix:
  "collapseFrom f (map normChar t) = w @ y \<Longrightarrow>
   \<exists>q b. t = q @ b \<and> (spells q w \<or> (f \<and> spells q (CHR '' '' # w)))"
proof (induction t arbitrary: f w)
  case Nil
  then have "spells [] w" by simp
  then show ?case by blast
next
  case (Cons c t)
  show ?case
  proof (cases w)
    case Nil
    then have "c # t = [] @ (c # t) \<and> spells [] w" by simp
    then show ?thesis by blast
  next
    case (Cons d w')
    note w = this
    show ?thesis
    proof (cases "isWhite (normChar c)")
      case True
      then have sep: "isSeparator c" by (simp add: normChar_white)
      show ?thesis
      proof (cases f)
        case True
        with \<open>isWhite (normChar c)\<close> Cons.prems
        have "collapseFrom True (map normChar t) = w @ y" by simp
        from Cons.IH [OF this] obtain q b
          where q: "t = q @ b" "spells q w \<or> spells q (CHR '' '' # w)" by blast
        then have "c # t = (c # q) @ b \<and> spells (c # q) (CHR '' '' # w)"
          using sep by simp
        with True show ?thesis by blast
      next
        case False
        with \<open>isWhite (normChar c)\<close> Cons.prems w
        have d: "d = CHR '' ''" and r: "collapseFrom True (map normChar t) = w' @ y"
          by simp_all
        from Cons.IH [OF r] obtain q b
          where q: "t = q @ b" "spells q w' \<or> spells q (CHR '' '' # w')" by blast
        then have "c # t = (c # q) @ b \<and> spells (c # q) w"
          using sep d w by simp
        then show ?thesis by blast
      qed
    next
      case False
      with Cons.prems w
      have d: "d = normChar c" and r: "collapseFrom False (map normChar t) = w' @ y"
        by simp_all
      from Cons.IH [OF r] obtain q b where q: "t = q @ b" "spells q w'" by blast
      from False d normChar_letter [OF False] have "d \<noteq> CHR '' ''" "toLowerChar c = d"
        by (auto simp: space_white)
      with q w have "c # t = (c # q) @ b \<and> spells (c # q) w" by simp
      then show ?thesis by blast
    qed
  qed
qed

lemma collapse_spells_inside:
  "collapseFrom f (map normChar t) = x @ v @ y \<Longrightarrow> v \<noteq> [] \<Longrightarrow> \<not> isWhite (hd v) \<Longrightarrow>
   \<exists>a q b. t = a @ q @ b \<and> spells q v"
proof (induction t arbitrary: f x)
  case Nil
  then show ?case by simp
next
  case (Cons c t)
  have step: "\<exists>a q b. c # t = a @ q @ b \<and> spells q v"
    if "collapseFrom g (map normChar t) = x' @ v @ y" for g x'
  proof -
    from Cons.IH [OF that Cons.prems(2,3)] obtain a q b
      where "t = a @ q @ b" "spells q v" by blast
    then have "c # t = (c # a) @ q @ b \<and> spells q v" by simp
    then show ?thesis by blast
  qed
  show ?case
  proof (cases "isWhite (normChar c)")
    case True
    show ?thesis
    proof (cases f)
      case True
      with \<open>isWhite (normChar c)\<close> Cons.prems(1)
      have "collapseFrom True (map normChar t) = x @ v @ y" by simp
      then show ?thesis by (rule step)
    next
      case False
      with \<open>isWhite (normChar c)\<close> Cons.prems(1)
      have e: "CHR '' '' # collapseFrom True (map normChar t) = x @ v @ y" by simp
      show ?thesis
      proof (cases x)
        case Nil
        with e Cons.prems(2) have "hd v = CHR '' ''" by (cases v) auto
        with Cons.prems(3) show ?thesis by (simp add: space_white)
      next
        case (Cons e' x')
        with e have "collapseFrom True (map normChar t) = x' @ v @ y" by simp
        then show ?thesis by (rule step)
      qed
    qed
  next
    case False
    with Cons.prems(1)
    have e: "normChar c # collapseFrom False (map normChar t) = x @ v @ y" by simp
    show ?thesis
    proof (cases x)
      case (Cons e' x')
      with e have "collapseFrom False (map normChar t) = x' @ v @ y" by simp
      then show ?thesis by (rule step)
    next
      case Nil
      from Cons.prems(2) obtain d v' where v: "v = d # v'" by (cases v) auto
      with e Nil have d: "d = normChar c"
        and r: "collapseFrom False (map normChar t) = v' @ y" by simp_all
      from collapse_spells_prefix [OF r] obtain q b where q: "t = q @ b" "spells q v'"
        by blast
      from False d normChar_letter [OF False] have "d \<noteq> CHR '' ''" "toLowerChar c = d"
        by (auto simp: space_white)
      with q v have "c # t = [] @ (c # q) @ b \<and> spells (c # q) v" by simp
      then show ?thesis by blast
    qed
  qed
qed

lemma trim_inside: "\<exists>l r. s = l @ trim s @ r"
proof -
  let ?u = "dropWhile isWhite s"
  have 1: "s = takeWhile isWhite s @ ?u" by simp
  have "?u = rev (takeWhile isWhite (rev ?u) @ dropWhile isWhite (rev ?u))"
    by (simp only: takeWhile_dropWhile_id rev_rev_ident)
  also have "\<dots> = rev (dropWhile isWhite (rev ?u)) @ rev (takeWhile isWhite (rev ?u))"
    by (simp only: rev_append)
  finally have 2: "?u = rev (dropWhile isWhite (rev ?u)) @ rev (takeWhile isWhite (rev ?u))" .
  have "trim s = rev (dropWhile isWhite (rev ?u))"
    by (simp add: trim_def trimEnd_def trimStart_def)
  with 1 2 have "s = takeWhile isWhite s @ trim s @ rev (takeWhile isWhite (rev ?u))"
    by metis
  then show ?thesis by blast
qed

lemma in_concat_map: "x \<in> set (concat (map f xs)) \<longleftrightarrow> (\<exists>y\<in>set xs. x \<in> set (f y))"
  by (induction xs) auto

lemma in_map: "x \<in> set (map f xs) \<longleftrightarrow> (\<exists>y\<in>set xs. x = f y)"
  by (induction xs) auto

lemma pieces_iff: "q \<in> set (pieces t) \<longleftrightarrow> (\<exists>a b. t = a @ q @ b)"
proof
  assume "q \<in> set (pieces t)"
  then obtain i where "q \<in> set (map (\<lambda>n. take n (drop i t)) [0..<Suc (length t - i)])"
    unfolding pieces_def in_concat_map by blast
  then have "\<exists>i n. q = take n (drop i t)"
    unfolding in_map by blast
  then obtain i n where q: "q = take n (drop i t)" by blast
  have "t = take i t @ (take n (drop i t) @ drop n (drop i t))"
    by (simp only: append_take_drop_id)
  with q have "t = take i t @ q @ drop n (drop i t)" by simp
  then show "\<exists>a b. t = a @ q @ b" by blast
next
  assume "\<exists>a b. t = a @ q @ b"
  then obtain a b where t: "t = a @ q @ b" by blast
  then have "length a < Suc (length t)" "length q < Suc (length t - length a)"
    "q = take (length q) (drop (length a) t)"
    by simp_all
  then have "length a \<in> set [0..<Suc (length t)]"
    "length q \<in> set [0..<Suc (length t - length a)]"
    "q = take (length q) (drop (length a) t)"
    by (simp_all only: set_upt atLeastLessThan_iff le0 simp_thms)
  then show "q \<in> set (pieces t)"
    unfolding pieces_def in_concat_map in_map by blast
qed

lemma spelledIn_iff: "spelledIn t v \<longleftrightarrow> (\<exists>a q b. t = a @ q @ b \<and> spells q v)"
proof -
  have "spelledIn t v \<longleftrightarrow> (\<exists>q. q \<in> set (pieces t) \<and> spells q v)"
    by (simp add: spelledIn_def list_ex_iff Bex_def)
  also have "\<dots> \<longleftrightarrow> (\<exists>q. (\<exists>a b. t = a @ q @ b) \<and> spells q v)"
    by (simp only: pieces_iff)
  also have "\<dots> \<longleftrightarrow> (\<exists>a q b. t = a @ q @ b \<and> spells q v)"
    by blast
  finally show ?thesis .
qed

lemma wakeVariants_clean: "list_all cleanPhrase wakeVariants"
  by code_simp

lemma wakeWordHeard_iff:
  "wakeWordHeard (Some t) \<longleftrightarrow>
     t \<noteq> [] \<and> (\<exists>v\<in>set wakeVariants. \<exists>a b. normalizeTranscript t = a @ v @ b)"
  by (simp add: wakeWordHeard_def list_ex_iff includesStr_iff)

lemma heard_spelledIn:
  assumes "wakeWordHeard (Some t)"
  shows "\<exists>v\<in>set wakeVariants. spelledIn t v"
proof -
  from assms obtain v x y where v: "v \<in> set wakeVariants"
    and n: "normalizeTranscript t = x @ v @ y"
    unfolding wakeWordHeard_iff by blast
  from v have c: "cleanPhrase v" using wakeVariants_clean by (simp add: list_all_iff)
  then have ne: "v \<noteq> []" and h: "\<not> isWhite (hd v)" by (simp_all add: cleanPhrase_def)
  obtain l r where "collapseWhite (map normChar t) = l @ trim (collapseWhite (map normChar t)) @ r"
    using trim_inside by blast
  with n have "collapseFrom False (map normChar t) = (l @ x) @ v @ (y @ r)"
    by (simp add: normalizeTranscript_def normalize_map collapseWhite_def)
  from collapse_spells_inside [OF this ne h] have "spelledIn t v"
    by (simp add: spelledIn_iff)
  with v show ?thesis by blast
qed

text \<open>
  C5. A variant written in any mix of upper and lower case, with each of its spaces
  written as any run of white space and of the punctuation \<open>. , ! ?\<close>, and with any text
  before and after it, is heard as the wake word; and a transcript no piece of which
  spells a variant in that way is not.
\<close>

theorem wakeWordHeard_variants:
  "(\<forall>p\<in>set wakeVariants. \<forall>q pre post.
      spells q p \<longrightarrow> wakeWordHeard (Some (pre @ q @ post))) \<and>
   (\<forall>t. list_all (\<lambda>v. \<not> spelledIn t v) wakeVariants \<longrightarrow> \<not> wakeWordHeard (Some t))"
proof (intro conjI ballI allI impI)
  fix p q pre post
  assume p: "p \<in> set wakeVariants" and q: "spells q p"
  from p have c: "cleanPhrase p"
    using wakeVariants_clean by (simp add: list_all_iff)
  then have "p \<noteq> []" by (simp add: cleanPhrase_def)
  with q have "q \<noteq> []" by (cases q; cases p) simp_all
  then have "pre @ q @ post \<noteq> []" by simp
  moreover have "\<exists>a b. normalizeTranscript (pre @ q @ post) = a @ p @ b"
    using spelling_heard [OF c q] .
  ultimately show "wakeWordHeard (Some (pre @ q @ post))"
    using p unfolding wakeWordHeard_iff by blast
next
  fix t
  assume "list_all (\<lambda>v. \<not> spelledIn t v) wakeVariants"
  then have "\<not> (\<exists>v\<in>set wakeVariants. spelledIn t v)" by (simp add: list_all_iff)
  then show "\<not> wakeWordHeard (Some t)" using heard_spelledIn by blast
qed

theorem wakeWordHeard_variants_witness:
  "''hey to do'' \<in> set wakeVariants \<and> spells ''Hey, To    DO'' ''hey to do'' \<and>
   wakeWordHeard (Some (''... '' @ ''Hey, To    DO'' @ ''! ...'')) \<and>
   list_all (\<lambda>v. \<not> spelledIn ''buy milk'' v) wakeVariants \<and>
   \<not> wakeWordHeard (Some ''buy milk'')"
proof -
  have m: "''hey to do'' \<in> set wakeVariants" by (simp add: wakeVariants_def)
  have s: "spells ''Hey, To    DO'' ''hey to do''" by code_simp
  have n: "list_all (\<lambda>v. \<not> spelledIn ''buy milk'' v) wakeVariants" by code_simp
  from wakeWordHeard_variants m s n show ?thesis by blast
qed

section \<open>Command interpretation\<close>

lemma trim_last_not_white: "trim t \<noteq> [] \<Longrightarrow> \<not> isWhite (last (trim t))"
proof -
  assume ne: "trim t \<noteq> []"
  let ?d = "dropWhile isWhite (rev (trimStart t))"
  from ne have d: "?d \<noteq> []" by (simp add: trim_def trimEnd_def)
  then have "\<not> isWhite (hd ?d)" by (rule hd_dropWhile)
  moreover have "last (trim t) = hd ?d"
    using d by (simp add: trim_def trimEnd_def last_rev)
  ultimately show ?thesis by simp
qed

lemma add_name_nonempty:
  assumes "startsWith (toLowerCase (trim t)) ''add ''"
  shows "trim (stripPrefixCI ''add'' (trim t)) \<noteq> []"
proof -
  let ?cmd = "trim t"
  from assms obtain b where lb: "toLowerCase ?cmd = ''add '' @ b"
    by (auto simp: startsWith_iff)
  then have "length (toLowerCase ?cmd) = 4 + length b" by simp
  then have len: "4 \<le> length ?cmd" by (simp add: toLowerCase_def)
  then have ne: "?cmd \<noteq> []" by auto
  from lb have la: "toLowerChar (hd ?cmd) = CHR ''a''"
    using ne by (cases ?cmd) (auto simp: toLowerCase_def)
  have h: "\<not> isWhite (hd ?cmd)"
  proof
    assume w: "isWhite (hd ?cmd)"
    then have "toLowerChar (hd ?cmd) = hd ?cmd" by (rule white_toLowerChar)
    with la have "hd ?cmd = CHR ''a''" by simp
    with w have "isWhite (CHR ''a'')" by simp
    then show False by (simp add: isWhite_def)
  qed
  then have c1: "dropWhile isWhite ?cmd = ?cmd"
    using ne by (cases ?cmd) auto
  have l: "\<not> isWhite (last ?cmd)" using ne by (rule trim_last_not_white)
  have "last ?cmd \<in> set (drop 3 ?cmd)"
  proof -
    have "drop 3 ?cmd \<noteq> []" using len by simp
    then have "last (drop 3 ?cmd) \<in> set (drop 3 ?cmd)" by (rule last_in_set)
    moreover have "last (drop 3 ?cmd) = last ?cmd" using len by (simp add: last_drop)
    ultimately show ?thesis by simp
  qed
  then have "\<exists>c\<in>set (drop 3 ?cmd). \<not> isWhite c" using l by blast
  then have "\<exists>c\<in>set (dropWhile isWhite (drop 3 ?cmd)). \<not> isWhite c"
    by (metis Un_iff set_append takeWhile_dropWhile_id set_takeWhileD)
  then have "trim (dropWhile isWhite (drop 3 ?cmd)) \<noteq> []"
    by (simp add: trim_empty_iff)
  moreover have "startsWith (toLowerCase ?cmd) ''add''"
    using lb by (simp add: startsWith_iff)
  ultimately show ?thesis
    by (simp add: stripPrefixCI_def c1 numeral_3_eq_3)
qed

lemma firstSome_first:
  "\<forall>q\<in>set ps1. f q = None \<Longrightarrow> f p = Some i \<Longrightarrow> firstSome f (ps1 @ p # ps2) = Some i"
  by (induction ps1) auto

lemma firstSome_none: "\<forall>q\<in>set ps. f q = None \<Longrightarrow> firstSome f ps = None"
  by (induction ps) auto

lemma firstMatch_Nil: "firstMatch [] cmd = Unrecognized"
  by (simp add: firstMatch_def)

lemma firstMatch_Cons:
  "firstMatch (p # ps) cmd =
     (case p cmd (toLowerCase cmd) of Some i \<Rightarrow> i | None \<Rightarrow> firstMatch ps cmd)"
  by (simp add: firstMatch_def split: option.splits)

lemma phrasePattern_Some: "anyIncluded lower ps \<Longrightarrow> phrasePattern ps i cmd lower = Some i"
  by (simp add: phrasePattern_def)

lemma phrasePattern_None: "\<not> anyIncluded lower ps \<Longrightarrow> phrasePattern ps i cmd lower = None"
  by (simp add: phrasePattern_def)

lemma anyIncluded_2: "anyIncluded l [a, b] \<longleftrightarrow> includesStr l a \<or> includesStr l b"
  by (simp add: anyIncluded_def)

lemma anyIncluded_4:
  "anyIncluded l [a, b, c, d] \<longleftrightarrow>
     includesStr l a \<or> includesStr l b \<or> includesStr l c \<or> includesStr l d"
  by (simp add: anyIncluded_def)

lemma anyIncluded_6:
  "anyIncluded l [a, b, c, d, e, f] \<longleftrightarrow>
     includesStr l a \<or> includesStr l b \<or> includesStr l c \<or> includesStr l d \<or>
     includesStr l e \<or> includesStr l f"
  by (simp add: anyIncluded_def)

lemma processCommand_dispatch:
  assumes ne: "trim t \<noteq> []"
  shows "processCommand (Some t) s = dispatch (interpretCommand (trim t)) s"
proof -
  let ?cmd = "trim t"
  let ?l = "toLowerCase ?cmd"
  let ?add = "startsWith ?l ''add ''"
  let ?rem = "startsWith ?l ''remind me to ''"
  let ?c5 = "anyIncluded ?l [''clear completed'', ''remove completed'']"
  let ?c6 = "anyIncluded ?l [''clear all'', ''remove all'']"
  let ?c7 = "anyIncluded ?l [''list all tasks'', ''what are my tasks'']"
  let ?c8 = "anyIncluded ?l [''list pending'', ''pending tasks'']"
  let ?c9 = "anyIncluded ?l [''list completed'', ''completed tasks'']"
  let ?c10 = "anyIncluded ?l [''sort by priority'', ''order by priority'']"
  let ?c11 = "anyIncluded ?l [''sort by category'', ''order by category'']"
  let ?c12 = "anyIncluded ?l [''sort by due'', ''sort by date'', ''sort by deadline'',
                ''order by due'', ''order by date'', ''order by deadline'']"
  let ?c13 = "anyIncluded ?l [''sort by created'', ''sort by added'', ''order by created'',
                ''order by added'']"
  from ne have t: "t \<noteq> []" by (auto simp: trim_def trimEnd_def trimStart_def)
  note unfold = processCommand_def interpretCommand_def intentPatterns_def firstMatch_Cons
    firstMatch_Nil addPattern_def markPattern_def deletePattern_def dispatch_def Let_def
  consider (add) ?add
    | (rem) "\<not> ?add" ?rem
    | (mark) g where "\<not> ?add" "\<not> ?rem" "markMatch ?l = Some g"
    | (del) g where "\<not> ?add" "\<not> ?rem" "markMatch ?l = None" "deleteMatch ?l = Some g"
    | (rest) "\<not> ?add" "\<not> ?rem" "markMatch ?l = None" "deleteMatch ?l = None"
    by (cases "markMatch ?l"; cases "deleteMatch ?l") auto
  then show ?thesis
  proof cases
    case add
    then show ?thesis using ne t by (simp add: unfold)
  next
    case rem
    then show ?thesis using ne t by (simp add: unfold)
  next
    case mark
    then show ?thesis using ne t by (simp add: unfold)
  next
    case del
    then show ?thesis using ne t by (simp add: unfold)
  next
    case rest
    note r = rest ne t
    consider (5) ?c5 | (6) "\<not> ?c5" ?c6 | (7) "\<not> ?c5" "\<not> ?c6" ?c7
      | (8) "\<not> ?c5" "\<not> ?c6" "\<not> ?c7" ?c8
      | (9) "\<not> ?c5" "\<not> ?c6" "\<not> ?c7" "\<not> ?c8" ?c9
      | (10) "\<not> ?c5" "\<not> ?c6" "\<not> ?c7" "\<not> ?c8" "\<not> ?c9" ?c10
      | (11) "\<not> ?c5" "\<not> ?c6" "\<not> ?c7" "\<not> ?c8" "\<not> ?c9" "\<not> ?c10" ?c11
      | (12) "\<not> ?c5" "\<not> ?c6" "\<not> ?c7" "\<not> ?c8" "\<not> ?c9" "\<not> ?c10" "\<not> ?c11" ?c12
      | (13) "\<not> ?c5" "\<not> ?c6" "\<not> ?c7" "\<not> ?c8" "\<not> ?c9" "\<not> ?c10" "\<not> ?c11" "\<not> ?c12" ?c13
      | (no) "\<not> ?c5" "\<not> ?c6" "\<not> ?c7" "\<not> ?c8" "\<not> ?c9" "\<not> ?c10" "\<not> ?c11" "\<not> ?c12" "\<not> ?c13"
      by blast
    then show ?thesis
    proof cases
      case 5
      show ?thesis
        using r 5 5 [unfolded anyIncluded_2]
        by (simp add: unfold phrasePattern_Some phrasePattern_None)
    next
      case 6
      show ?thesis
        using r 6 6 [unfolded anyIncluded_2]
        by (simp add: unfold phrasePattern_Some phrasePattern_None)
    next
      case 7
      show ?thesis
        using r 7 7 [unfolded anyIncluded_2]
        by (simp add: unfold phrasePattern_Some phrasePattern_None)
    next
      case 8
      show ?thesis
        using r 8 8 [unfolded anyIncluded_2]
        by (simp add: unfold phrasePattern_Some phrasePattern_None)
    next
      case 9
      show ?thesis
        using r 9 9 [unfolded anyIncluded_2]
        by (simp add: unfold phrasePattern_Some phrasePattern_None)
    next
      case 10
      show ?thesis
        using r 10 10 [unfolded anyIncluded_2]
        by (simp add: unfold phrasePattern_Some phrasePattern_None)
    next
      case 11
      show ?thesis
        using r 11 11 [unfolded anyIncluded_2]
        by (simp add: unfold phrasePattern_Some phrasePattern_None)
    next
      case 12
      show ?thesis
        using r 12 12 [unfolded anyIncluded_2 anyIncluded_6]
        by (simp add: unfold phrasePattern_Some phrasePattern_None)
    next
      case 13
      show ?thesis
        using r 13 13 [unfolded anyIncluded_2 anyIncluded_6 anyIncluded_4]
        by (simp add: unfold phrasePattern_Some phrasePattern_None)
    next
      case no
      show ?thesis
        using r no no [unfolded anyIncluded_2 anyIncluded_6 anyIncluded_4]
        by (simp add: unfold phrasePattern_Some phrasePattern_None)
    qed
  qed
qed

text \<open>
  C4. The command is interpreted by the first pattern of the table that matches it, in the
  order add, mark, delete, clear completed, clear all, the three listings, the four sort
  modes, and \<open>Unrecognized\<close> when none does; what \<open>processCommand\<close> does is the dispatch of
  that intent. A command that starts with "add " and contains "clear all" is an
  \<open>AddTask\<close>: one \<open>POST /add\<close> and no dialog.
\<close>

theorem processCommand_first_match_wins:
  "(trim t \<noteq> [] \<longrightarrow> processCommand (Some t) s = dispatch (interpretCommand (trim t)) s) \<and>
   (\<forall>ps1 p ps2 i.
      intentPatterns = ps1 @ p # ps2 \<and> (\<forall>q\<in>set ps1. q cmd (toLowerCase cmd) = None) \<and>
      p cmd (toLowerCase cmd) = Some i \<longrightarrow> interpretCommand cmd = i) \<and>
   ((\<forall>q\<in>set intentPatterns. q cmd (toLowerCase cmd) = None) \<longrightarrow>
      interpretCommand cmd = Unrecognized) \<and>
   (startsWith (toLowerCase (trim t)) ''add '' \<and> includesStr (toLowerCase (trim t)) ''clear all'' \<longrightarrow>
      interpretCommand (trim t) = AddTask (trim (stripPrefixCI ''add'' (trim t))) \<and>
      processCommand (Some t) s =
        sendCommandJson ''/add'' [(''task'', trim (stripPrefixCI ''add'' (trim t)))] s \<and>
      trace (processCommand (Some t) s) =
        trace s @ [Post ''/add'' [(''task'', trim (stripPrefixCI ''add'' (trim t)))]] \<and>
      inConfirmDialog (processCommand (Some t) s) = inConfirmDialog s \<and>
      dialogVisible (processCommand (Some t) s) = dialogVisible s)"
proof (intro conjI allI impI)
  assume "trim t \<noteq> []"
  then show "processCommand (Some t) s = dispatch (interpretCommand (trim t)) s"
    by (rule processCommand_dispatch)
next
  fix ps1 p ps2 i
  assume a: "intentPatterns = ps1 @ p # ps2 \<and> (\<forall>q\<in>set ps1. q cmd (toLowerCase cmd) = None) \<and>
      p cmd (toLowerCase cmd) = Some i"
  then have "firstSome (\<lambda>p. p cmd (toLowerCase cmd)) (ps1 @ p # ps2) = Some i"
    by (intro firstSome_first) auto
  with a show "interpretCommand cmd = i"
    by (simp add: interpretCommand_def firstMatch_def)
next
  assume "\<forall>q\<in>set intentPatterns. q cmd (toLowerCase cmd) = None"
  then have "firstSome (\<lambda>p. p cmd (toLowerCase cmd)) intentPatterns = None"
    by (rule firstSome_none)
  then show "interpretCommand cmd = Unrecognized"
    by (simp add: interpretCommand_def firstMatch_def)
next
  assume a: "startsWith (toLowerCase (trim t)) ''add '' \<and> includesStr (toLowerCase (trim t)) ''clear all''"
  let ?n = "trim (stripPrefixCI ''add'' (trim t))"
  from a have n: "?n \<noteq> []" by (intro add_name_nonempty) simp
  from a have ne: "trim t \<noteq> []" by (auto simp: startsWith_def toLowerCase_def)
  show i: "interpretCommand (trim t) = AddTask ?n"
    using a n
    by (simp add: interpretCommand_def intentPatterns_def firstMatch_Cons addPattern_def Let_def)
  show p: "processCommand (Some t) s = sendCommandJson ''/add'' [(''task'', ?n)] s"
    using processCommand_dispatch [OF ne, of s] i by (simp add: dispatch_def)
  show "trace (processCommand (Some t) s) = trace s @ [Post ''/add'' [(''task'', ?n)]]"
    unfolding p by (simp add: sendCommandJson_def emit_def)
  show "inConfirmDialog (processCommand (Some t) s) = inConfirmDialog s"
    unfolding p by (simp add: sendCommandJson_def emit_def)
  show "dialogVisible (processCommand (Some t) s) = dialogVisible s"
    unfolding p by (simp add: sendCommandJson_def emit_def)
qed

theorem processCommand_first_match_wins_witness:
  "startsWith (toLowerCase (trim ''add clear all'')) ''add '' \<and>
   includesStr (toLowerCase (trim ''add clear all'')) ''clear all'' \<and>
   interpretCommand ''add clear all'' = AddTask ''clear all'' \<and>
   trace (processCommand (Some ''add clear all'') (boot True True)) =
     trace (boot True True) @ [Post ''/add'' [(''task'', ''clear all'')]] \<and>
   inConfirmDialog (processCommand (Some ''add clear all'') (boot True True)) =
     inConfirmDialog (boot True True)"
proof -
  have h: "startsWith (toLowerCase (trim ''add clear all'')) ''add ''"
          "includesStr (toLowerCase (trim ''add clear all'')) ''clear all''"
    by code_simp+
  have e: "trim ''add clear all'' = ''add clear all''"
          "trim (stripPrefixCI ''add'' ''add clear all'') = ''clear all''"
    by code_simp+
  from processCommand_first_match_wins [where t = "''add clear all''" and s = "boot True True"] h
  have "interpretCommand (trim ''add clear all'') =
          AddTask (trim (stripPrefixCI ''add'' (trim ''add clear all''))) \<and>
        trace (processCommand (Some ''add clear all'') (boot True True)) =
          trace (boot True True) @
            [Post ''/add'' [(''task'', trim (stripPrefixCI ''add'' (trim ''add clear all'')))]] \<and>
        inConfirmDialog (processCommand (Some ''add clear all'') (boot True True)) =
          inConfirmDialog (boot True True)"
    by blast
  then show ?thesis using h by (simp only: e)
qed

text \<open>
  C10. For a command that is \<open>undefined\<close>, empty or made of white space only,
  \<open>processCommand\<close> returns the state it was given: nothing is added to the trace (no
  speech, no status, no request), the utterance queue and \<open>sortMode\<close> are as before.
\<close>

theorem processCommand_blank_noop:
  "processCommand None s = s \<and>
   (\<forall>t. (\<forall>c\<in>set t. isWhite c) \<longrightarrow> processCommand (Some t) s = s)"
  by (simp add: processCommand_def trim_empty_iff [symmetric])

theorem processCommand_blank_noop_witness:
  "list_all isWhite [CHR '' '', CHR 0x09, CHR '' ''] \<and>
   processCommand (Some [CHR '' '', CHR 0x09, CHR '' '']) (boot True True) = boot True True \<and>
   processCommand (Some []) (boot True True) = boot True True \<and>
   processCommand None (boot True True) = boot True True"
proof -
  have w: "list_all isWhite [CHR '' '', CHR 0x09, CHR '' '']" by code_simp
  then have "\<forall>c\<in>set [CHR '' '', CHR 0x09, CHR '' '']. isWhite c"
    unfolding list_all_iff .
  moreover have "\<forall>c\<in>set ([]::string). isWhite c" by simp
  ultimately show ?thesis
    using w processCommand_blank_noop [of "boot True True"] by blast
qed

lemma processCommand_cases:
  "processCommand cmd s = s \<or> (\<exists>i. processCommand cmd s = dispatch i s)"
proof (cases cmd)
  case None
  then show ?thesis by (simp add: processCommand_def)
next
  case (Some t)
  show ?thesis
  proof (cases "trim t = []")
    case True
    then have "\<forall>c\<in>set t. isWhite c" by (simp add: trim_empty_iff)
    then have "processCommand (Some t) s = s"
      by (simp add: processCommand_def trim_empty_iff [symmetric])
    with Some show ?thesis by simp
  next
    case False
    then show ?thesis using Some processCommand_dispatch by blast
  qed
qed

section \<open>Responses to a POST\<close>

text \<open>
  C9, as the code has it. With a readable body: a non-success status speaks and then
  displays the body's error (or "Unknown error"), does not refresh and gives \<open>null\<close>; a
  success speaks the message when it is present and not empty, then refreshes and gives
  the body. A failed request or an unreadable body displays and speaks "Network error."
  and gives \<open>null\<close>; the function has a value for every outcome.
\<close>

theorem sendCommandJsonDone_outcomes:
  assumes "hasSynth s"
  shows
   "(\<forall>e. error d = Some e \<and> e \<noteq> [] \<longrightarrow>
       snd (sendCommandJsonDone (Response False d) s) = None \<and>
       trace (fst (sendCommandJsonDone (Response False d) s)) =
         trace s @ [Say e, ShowStatus e ''red'']) \<and>
    (error d = None \<or> error d = Some [] \<longrightarrow>
       snd (sendCommandJsonDone (Response False d) s) = None \<and>
       trace (fst (sendCommandJsonDone (Response False d) s)) =
         trace s @ [Say ''Unknown error'', ShowStatus ''Unknown error'' ''red'']) \<and>
    (\<forall>m. message d = Some m \<and> m \<noteq> [] \<longrightarrow>
       snd (sendCommandJsonDone (Response True d) s) = Some d \<and>
       trace (fst (sendCommandJsonDone (Response True d) s)) =
         trace s @ [Say m, GetTasks (''/tasks?sort='' @ sortMode s)]) \<and>
    (message d = None \<or> message d = Some [] \<longrightarrow>
       snd (sendCommandJsonDone (Response True d) s) = Some d \<and>
       trace (fst (sendCommandJsonDone (Response True d) s)) =
         trace s @ [GetTasks (''/tasks?sort='' @ sortMode s)]) \<and>
    (\<forall>r. r = FetchFailed \<or> (\<exists>ok. r = BodyUnreadable ok) \<longrightarrow>
       snd (sendCommandJsonDone r s) = None \<and>
       trace (fst (sendCommandJsonDone r s)) =
         trace s @ [ShowStatus ''Network error.'' ''red'', Say ''Network error.''])"
  using assms
  by (auto simp: sendCommandJsonDone_def speak_def showStatus_def refreshTasks_def emit_def
        Let_def)

theorem sendCommandJsonDone_outcomes_witness:
  "hasSynth (boot True True) \<and>
   snd (sendCommandJsonDone (Response False \<lparr>message = None, error = Some ''Task not found''\<rparr>)
          (boot True True)) = None \<and>
   trace (fst (sendCommandJsonDone (Response False \<lparr>message = None, error = Some ''Task not found''\<rparr>)
          (boot True True))) =
     trace (boot True True) @ [Say ''Task not found'', ShowStatus ''Task not found'' ''red''] \<and>
   trace (fst (sendCommandJsonDone (Response True \<lparr>message = Some ''Added'', error = None\<rparr>)
          (boot True True))) =
     trace (boot True True) @ [Say ''Added'', GetTasks (''/tasks?sort='' @ sortMode (boot True True))] \<and>
   snd (sendCommandJsonDone FetchFailed (boot True True)) = None"
proof -
  have h: "hasSynth (boot True True)" by code_simp
  show ?thesis
    using h
      sendCommandJsonDone_outcomes [OF h, of "\<lparr>message = None, error = Some ''Task not found''\<rparr>"]
      sendCommandJsonDone_outcomes [OF h, of "\<lparr>message = Some ''Added'', error = None\<rparr>"]
    by simp
qed

text \<open>
  C9 as stated fails: a success response whose message is present and empty is not
  spoken; only the refresh happens.
\<close>

theorem sendCommandJsonDone_empty_message_counterexample:
  "message \<lparr>message = Some [], error = None\<rparr> = Some [] \<and>
   trace (fst (sendCommandJsonDone (Response True \<lparr>message = Some [], error = None\<rparr>)
            (boot True True))) =
     trace (boot True True) @ [GetTasks ''/tasks?sort=created'']"
  by code_simp

section \<open>Runs from the loaded page\<close>

text \<open>
  C1. The sessions do not exclude each other in every run. On the loaded page the wake
  session ends by itself and its \<open>onend\<close> schedules the restart; the Clear All button is
  clicked, which opens the dialog; the timer fires and \<open>startWakeRecognition\<close>, which does
  not look at \<open>inConfirmDialog\<close>, starts the wake session; the prompt ends and the
  confirmation session starts. Every event of the run is one the browser can deliver, and
  at its end the wake session and the confirmation session both capture.
\<close>

theorem wake_and_confirmation_capture_together:
  "feasible [End Wake 0, ClearClick, TimerFires, UtteranceEnd] (boot True True) \<and>
   capturing Wake (run [End Wake 0, ClearClick, TimerFires, UtteranceEnd] (boot True True)) \<and>
   capturing Confirm (run [End Wake 0, ClearClick, TimerFires, UtteranceEnd] (boot True True)) \<and>
   inConfirmDialog (run [End Wake 0, ClearClick, TimerFires, UtteranceEnd] (boot True True))"
  by code_simp

text \<open>
  C3. In the earlier copy of the script the confirmation session does not wait for the
  prompt: after the call that opens the dialog from the loaded page the prompt is the
  utterance being spoken and the confirmation session already captures. (For the
  \<open>openConfirmDialog\<close> of \<^verbatim>\<open>static/script.js\<close> see \<open>openConfirmDialog_waits\<close> and
  \<open>utteranceEnded_starts_confirm\<close> below.)
\<close>

theorem openConfirmDialog_part000_listens_during_prompt:
  "utterances (askForClearAllConfirmation_part000 (boot True True)) = [(clearAllPrompt, None)] \<and>
   capturing Confirm (askForClearAllConfirmation_part000 (boot True True)) \<and>
   drop (length (trace (boot True True)))
     (trace (askForClearAllConfirmation_part000 (boot True True))) =
     [DialogShown ''This will delete ALL tasks and cannot be undone. Are you sure?'',
      RecStop Wake 0, Say clearAllPrompt, RecStart Confirm 0]"
  by code_simp

text \<open>
  C7 as stated fails: with the dialog open and its session running, the reply
  "yes please" contains "yes", yet the dialog stays open and the request to repeat is
  spoken; and the reply "sure, no problem" contains "no", yet it accepts: the dialog is
  closed and the list is cleared.
\<close>

theorem confirm_yes_please_counterexample:
  "includesStr (trim (toLowerCase ''yes please'')) ''yes'' \<and>
   inConfirmDialog (run [ClearClick, UtteranceEnd] (boot True True)) \<and>
   live Confirm 0 (run [ClearClick, UtteranceEnd] (boot True True)) \<and>
   inConfirmDialog (run [ClearClick, UtteranceEnd, Result Confirm 0 ''yes please''] (boot True True)) \<and>
   emitted (Result Confirm 0 ''yes please'') (run [ClearClick, UtteranceEnd] (boot True True)) =
     [Say ''I did not catch that. Can you repeat?''] \<and>
   includesStr (trim (toLowerCase ''sure, no problem'')) ''no'' \<and>
   emitted (Result Confirm 0 ''sure, no problem'')
     (run [ClearClick, UtteranceEnd] (boot True True)) =
     [DialogHidden, RecStop Confirm 0, SetTimeout 300, Post ''/clear'' []]"
  by code_simp

text \<open>
  C8. The mute button does not pause every session. Its handler stops the wake session
  that \<open>wakeRunning\<close> records and the command session, and shows "Voice paused. Use manual
  input."; it does not withdraw the prompt whose end starts the command session, and
  \<open>wakeRunning\<close> is one flag for the wake sessions of every call of \<open>initRecognizers\<close>.

  In the first run the wake word is heard on the loaded page, so that a command is awaited
  and "Yes?" is being spoken, and the button is clicked: the handler stops no session and
  shows the pause, yet the end of the prompt starts the command session, which captures
  with \<open>listening\<close> off, and the command "add milk" it hears is posted.

  In the second run the button is clicked twice before the end event of the first wake
  session arrives. That event clears the flag while the second wake session runs, the
  \<open>start()\<close> of the timer fails on the running session and leaves the flag cleared, and
  the third click stops nothing: the wake session captures with \<open>listening\<close> off, and
  the wake word heard then is detected and answered with "Yes?".
\<close>

theorem mute_leaves_sessions_listening:
  "feasible [Result Wake 0 ''hey to do'', MuteClick, UtteranceEnd, Result Command 0 ''add milk'']
     (boot True True) \<and>
   inCommandMode (run [Result Wake 0 ''hey to do''] (boot True True)) \<and>
   emitted MuteClick (run [Result Wake 0 ''hey to do''] (boot True True)) =
     [ShowStatus ''Voice paused. Use manual input.'' ''gray''] \<and>
   \<not> listening (run [Result Wake 0 ''hey to do'', MuteClick, UtteranceEnd] (boot True True)) \<and>
   emitted UtteranceEnd (run [Result Wake 0 ''hey to do'', MuteClick] (boot True True)) =
     [Spoken ''Yes?'', Ding, ShowStatus ''Speak now!'' ''green'', RecStart Command 0] \<and>
   capturing Command (run [Result Wake 0 ''hey to do'', MuteClick, UtteranceEnd] (boot True True)) \<and>
   Post ''/add'' [(''task'', ''milk'')] \<in> set (emitted (Result Command 0 ''add milk'')
     (run [Result Wake 0 ''hey to do'', MuteClick, UtteranceEnd] (boot True True))) \<and>
   feasible [MuteClick, MuteClick, End Wake 0, TimerFires, MuteClick, Result Wake 1 ''hey to do'']
     (boot True True) \<and>
   emitted MuteClick (run [MuteClick, MuteClick, End Wake 0, TimerFires] (boot True True)) =
     [ShowStatus ''Voice paused. Use manual input.'' ''gray''] \<and>
   \<not> listening (run [MuteClick, MuteClick, End Wake 0, TimerFires, MuteClick] (boot True True)) \<and>
   capturing Wake (run [MuteClick, MuteClick, End Wake 0, TimerFires, MuteClick] (boot True True)) \<and>
   emitted (Result Wake 1 ''hey to do'')
     (run [MuteClick, MuteClick, End Wake 0, TimerFires, MuteClick] (boot True True)) =
     [ShowStatus ''Listening for command...'' ''blue'', Say ''Yes?'']"
  by code_simp

section \<open>Where the command session is started\<close>

lemmas op_defs =
  emit_def recStart_def tryStart_def canStart_def recStop_def newSession_def playDing_def
  showStatus_def startWakeRecognition_def stopWakeRecognition_def stopCommandRecognition_def
  startConfirmRecognition_def sendCommandJson_def refreshTasks_def startListing_def
  performAction_def sessionEnded_def

lemma speak_plain: "cb \<noteq> Some StartCommandCb \<Longrightarrow>
  speak tx cb s =
    (if hasSynth s then emit (Say tx) (s\<lparr>utterances := [(tx, cb)]\<rparr>)
     else if cb = Some StartConfirmCb then startConfirmRecognition s else s)"
  by (cases cb; cases "the cb") (auto simp: speak_def runCallback_def)

lemma speak_cmd: "cb \<noteq> Some StartCommandCb \<Longrightarrow>
  isRunning Command c (speak tx cb s) \<Longrightarrow> isRunning Command c s"
  by (auto simp: speak_plain op_defs isRunning_def Let_def split: if_splits)

lemma speak_none_cmd: "isRunning Command c (speak tx None s) \<Longrightarrow> isRunning Command c s"
  by (rule speak_cmd) simp_all

lemma speak_confirm_cmd:
  "isRunning Command c (speak tx (Some StartConfirmCb) s) \<Longrightarrow> isRunning Command c s"
  by (rule speak_cmd) simp_all

lemma emit_cmd: "isRunning Command c (emit e s) \<Longrightarrow> isRunning Command c s"
  by (simp add: isRunning_def emit_def)

lemma showStatus_cmd: "isRunning Command c (showStatus m col s) \<Longrightarrow> isRunning Command c s"
  by (simp add: isRunning_def op_defs)

lemma recStop_cmd: "isRunning Command c (recStop k i s) \<Longrightarrow> isRunning Command c s"
  by (cases k) (auto simp: isRunning_def op_defs nth_list_update split: if_splits)

lemma nth_update_Running:
  "c < length xs \<Longrightarrow> xs[i := v] ! c = Running \<Longrightarrow> v \<noteq> Running \<Longrightarrow> xs ! c = Running"
  by (cases "i = c") auto

lemma sessionEnded_cmd: "isRunning Command c (sessionEnded k i s) \<Longrightarrow> isRunning Command c s"
  by (cases k) (auto simp: isRunning_def op_defs dest: nth_update_Running)

lemma startWake_cmd: "isRunning Command c (startWakeRecognition s) \<Longrightarrow> isRunning Command c s"
  by (auto simp: isRunning_def op_defs split: if_splits option.splits)

lemma stopWake_cmd: "isRunning Command c (stopWakeRecognition s) \<Longrightarrow> isRunning Command c s"
  by (auto simp: isRunning_def op_defs split: if_splits option.splits)

lemma stopCommand_cmd: "isRunning Command c (stopCommandRecognition s) \<Longrightarrow> isRunning Command c s"
  by (auto simp: stopCommandRecognition_def dest: recStop_cmd split: option.splits)

lemma startConfirm_cmd: "isRunning Command c (startConfirmRecognition s) \<Longrightarrow> isRunning Command c s"
  by (auto simp: isRunning_def op_defs Let_def split: if_splits)

lemma sendCommandJson_cmd: "isRunning Command c (sendCommandJson p pl s) \<Longrightarrow> isRunning Command c s"
  by (simp add: isRunning_def op_defs)

lemma refreshTasks_cmd: "isRunning Command c (refreshTasks s) \<Longrightarrow> isRunning Command c s"
  by (simp add: isRunning_def op_defs)

lemma startListing_cmd: "isRunning Command c (startListing k s) \<Longrightarrow> isRunning Command c s"
  by (simp add: isRunning_def op_defs)

lemma field_cmd:
  "isRunning Command c (s\<lparr>sortMode := m\<rparr>) = isRunning Command c s"
  "isRunning Command c (s\<lparr>inCommandMode := b\<rparr>) = isRunning Command c s"
  "isRunning Command c (s\<lparr>wakeRunning := b\<rparr>) = isRunning Command c s"
  "isRunning Command c (s\<lparr>wakeTimers := n\<rparr>) = isRunning Command c s"
  "isRunning Command c (s\<lparr>pendingPosts := n\<rparr>) = isRunning Command c s"
  "isRunning Command c (s\<lparr>pendingLists := ls\<rparr>) = isRunning Command c s"
  "isRunning Command c (s\<lparr>utterances := us\<rparr>) = isRunning Command c s"
  "isRunning Command c (s\<lparr>listening := b\<rparr>) = isRunning Command c s"
  "isRunning Command c (s\<lparr>dialogVisible := b\<rparr>) = isRunning Command c s"
  "isRunning Command c (s\<lparr>inConfirmDialog := b\<rparr>) = isRunning Command c s"
  "isRunning Command c (s\<lparr>confirmRecognition := r\<rparr>) = isRunning Command c s"
  "isRunning Command c (s\<lparr>confirmOnConfirm := a\<rparr>) = isRunning Command c s"
  "isRunning Command c (s\<lparr>confirmOnCancel := a\<rparr>) = isRunning Command c s"
  by (simp_all add: isRunning_def)

lemma setSortMode_cmd: "isRunning Command c (setSortMode m a s) \<Longrightarrow> isRunning Command c s"
  by (auto simp: setSortMode_def field_cmd dest!: refreshTasks_cmd speak_none_cmd)

lemma performAction_cmd: "isRunning Command c (performAction a s) \<Longrightarrow> isRunning Command c s"
  by (cases a) (auto simp: performAction_def dest: sendCommandJson_cmd)

lemma openConfirmDialog_cmd:
  "isRunning Command c (openConfirmDialog msg a oc vp s) \<Longrightarrow> isRunning Command c s"
proof -
  assume r: "isRunning Command c (openConfirmDialog msg a oc vp s)"
  let ?s3 = "stopCommandRecognition (stopWakeRecognition (emit (DialogShown msg)
               (s\<lparr>inConfirmDialog := True, confirmOnConfirm := Some a,
                   confirmOnCancel := oc, dialogVisible := True\<rparr>)))"
  from r have "isRunning Command c ?s3"
    by (auto simp: openConfirmDialog_def Let_def dest: speak_confirm_cmd
          split: if_splits option.splits)
  then show ?thesis
    by (auto simp: field_cmd dest!: stopCommand_cmd stopWake_cmd emit_cmd)
qed

lemma closeConfirmDialog_cmd:
  "isRunning Command c (closeConfirmDialog s) \<Longrightarrow> isRunning Command c s"
  by (auto simp: closeConfirmDialog_def Let_def isRunning_def op_defs
        split: if_splits option.splits)

lemma handleConfirmYes_cmd: "isRunning Command c (handleConfirmYes s) \<Longrightarrow> isRunning Command c s"
  by (auto simp: handleConfirmYes_def Let_def dest!: performAction_cmd closeConfirmDialog_cmd
        split: option.splits)

lemma handleConfirmCancel_cmd:
  "isRunning Command c (handleConfirmCancel s) \<Longrightarrow> isRunning Command c s"
  by (auto simp: handleConfirmCancel_def Let_def
        dest!: performAction_cmd speak_none_cmd closeConfirmDialog_cmd split: option.splits)

lemma dispatch_cmd: "isRunning Command c (dispatch i s) \<Longrightarrow> isRunning Command c s"
  by (cases i)
     (auto simp: dispatch_def askForClearAllConfirmation_def askForClearCompletedConfirmation_def
        dest: sendCommandJson_cmd speak_none_cmd startListing_cmd setSortMode_cmd
          openConfirmDialog_cmd)

lemma processCommand_cmd: "isRunning Command c (processCommand cmd s) \<Longrightarrow> isRunning Command c s"
  using processCommand_cases [of cmd s] by (auto dest: dispatch_cmd)

lemma sendCommandJsonDone_cmd:
  "isRunning Command c (fst (sendCommandJsonDone r s)) \<Longrightarrow> isRunning Command c s"
  by (cases r)
     (auto simp: sendCommandJsonDone_def Let_def
        dest!: showStatus_cmd refreshTasks_cmd speak_none_cmd split: if_splits option.splits)

lemma listingDone_cmd: "isRunning Command c (listingDone k r s) \<Longrightarrow> isRunning Command c s"
  by (cases k; cases r)
     (auto simp: listingDone_def Let_def dest!: showStatus_cmd speak_none_cmd split: if_splits)

lemma initRecognizers_cmd: "isRunning Command c (initRecognizers s) \<Longrightarrow> isRunning Command c s"
  by (auto simp: initRecognizers_def Let_def isRunning_def op_defs nth_append split: if_splits)

lemma muteClick_cmd: "isRunning Command c (muteClick s) \<Longrightarrow> isRunning Command c s"
  by (auto simp: muteClick_def Let_def field_cmd
        dest!: showStatus_cmd startWake_cmd initRecognizers_cmd stopCommand_cmd stopWake_cmd
        split: if_splits)

lemma wakeOnResult_cmd: "isRunning Command c (wakeOnResult heard s) \<Longrightarrow> isRunning Command c s"
  by (auto simp: wakeOnResult_def Let_def field_cmd
        dest!: emit_cmd showStatus_cmd stopWake_cmd split: if_splits)

lemma step_cmd:
  assumes "isRunning Command c (step e s)" and "e \<noteq> UtteranceEnd"
  shows "isRunning Command c s"
proof (cases e)
  case (Result k i heard)
  with assms(1) show ?thesis
    by (cases k)
       (auto simp: commandOnResult_def confirmOnResult_def Let_def
          dest!: wakeOnResult_cmd processCommand_cmd showStatus_cmd handleConfirmYes_cmd
            handleConfirmCancel_cmd speak_confirm_cmd split: if_splits)
next
  case (End k i)
  with assms(1) show ?thesis
    by (cases k)
       (auto simp: wakeOnEnd_def commandOnEnd_def confirmOnEnd_def Let_def field_cmd tryStart_def
          recStart_def
          dest!: emit_cmd showStatus_cmd sessionEnded_cmd split: if_splits option.splits,
        auto simp: isRunning_def sessionEnded_def)
next
  case (Error k i code)
  with assms(1) show ?thesis
    by (cases k)
       (auto simp: commandOnError_def Let_def field_cmd dest!: startWake_cmd split: if_splits)
next
  case UtteranceEnd
  with assms(2) show ?thesis by simp
next
  case TimerFires
  with assms(1) show ?thesis by (auto simp: field_cmd dest!: startWake_cmd)
next
  case MuteClick
  with assms(1) show ?thesis by (auto dest: muteClick_cmd)
next
  case ClearClick
  with assms(1) show ?thesis
    by (auto simp: askForClearAllConfirmation_def dest: openConfirmDialog_cmd)
next
  case ConfirmYesClick
  with assms(1) show ?thesis by (auto dest: handleConfirmYes_cmd)
next
  case ConfirmNoClick
  with assms(1) show ?thesis by (auto dest: handleConfirmCancel_cmd)
next
  case (PostDone r)
  with assms(1) show ?thesis by (auto simp: field_cmd dest!: sendCommandJsonDone_cmd)
next
  case (TasksDone k r)
  with assms(1) show ?thesis by (auto simp: field_cmd dest!: listingDone_cmd)
qed

lemma utteranceEnded_starts_command:
  assumes r: "isRunning Command c (utteranceEnded s)" and n: "\<not> isRunning Command c s"
  shows "commandRecognition s = Some c \<and>
         (\<exists>tx rest. utterances s = (tx, Some StartCommandCb) # rest \<and>
            utterances (utteranceEnded s) = rest \<and>
            trace (utteranceEnded s) =
              trace s @ [Spoken tx, Ding, ShowStatus ''Speak now!'' ''green'', RecStart Command c])"
proof (cases "utterances s")
  case Nil
  with r n show ?thesis by (simp add: utteranceEnded_def)
next
  case (Cons u rest)
  obtain tx cb where u: "u = (tx, cb)" by (cases u)
  let ?s1 = "emit (Spoken tx) (s\<lparr>utterances := rest\<rparr>)"
  have s1: "\<not> isRunning Command c ?s1" using n by (simp add: isRunning_def emit_def)
  show ?thesis
  proof (cases cb)
    case None
    with r s1 Cons u show ?thesis by (simp add: utteranceEnded_def)
  next
    case (Some k)
    note cbk = this
    show ?thesis
    proof (cases k)
      case StartConfirmCb
      with r cbk Cons u have "isRunning Command c (startConfirmRecognition ?s1)"
        by (simp add: utteranceEnded_def runCallback_def)
      then have "isRunning Command c ?s1" by (rule startConfirm_cmd)
      with s1 show ?thesis by simp
    next
      case StartCommandCb
      let ?s2 = "showStatus ''Speak now!'' ''green'' (playDing ?s1)"
      have e: "utteranceEnded s = commandPromptEnded ?s1"
        using cbk Cons u StartCommandCb by (simp add: utteranceEnded_def runCallback_def)
      have s2: "\<not> isRunning Command c ?s2"
        using n by (simp add: isRunning_def emit_def showStatus_def playDing_def)
      show ?thesis
      proof (cases "commandRecognition s")
        case None
        then have "commandPromptEnded ?s1 = ?s2"
          by (simp add: commandPromptEnded_def Let_def showStatus_def playDing_def emit_def)
        with r e s2 show ?thesis by simp
      next
        case (Some c')
        then have p: "commandPromptEnded ?s1 = tryStart Command c' ?s2"
          by (simp add: commandPromptEnded_def Let_def showStatus_def playDing_def emit_def)
        show ?thesis
        proof (cases "canStart Command c' ?s2")
          case False
          with p have "commandPromptEnded ?s1 = ?s2" by (simp add: tryStart_def)
          with r e s2 show ?thesis by simp
        next
          case True
          with p have q: "utteranceEnded s = recStart Command c' ?s2"
            using e by (simp add: tryStart_def)
          have "c = c'"
          proof (rule ccontr)
            assume "c \<noteq> c'"
            with r q have "isRunning Command c ?s2"
              by (simp add: isRunning_def recStart_def emit_def)
            with s2 show False by simp
          qed
          with q Some cbk Cons u StartCommandCb show ?thesis
            by (simp add: recStart_def emit_def showStatus_def playDing_def)
        qed
      qed
    qed
  qed
qed

lemma wakeOnResult_detected:
  assumes "wakeDetected heard s" "hasSynth s"
  shows "utterances (wakeOnResult heard s) = utterances s @ [(''Yes?'', Some StartCommandCb)]"
    and "inCommandMode (wakeOnResult heard s)"
  using assms
  by (auto simp: wakeOnResult_def Let_def op_defs split: option.splits)

text \<open>
  C2. When a transcript triggers wake detection, the handler queues the prompt with the
  callback that starts the command session and starts no command session itself. And
  whatever the event and the state, a command session that was not running runs after
  the event only if the event is the end of an utterance that carries that callback: the
  utterance leaves the queue, its completion is recorded, the ding and the status follow,
  and \<open>start()\<close> is the last thing that happens.
\<close>

theorem command_start_follows_prompt:
  "(wakeDetected heard s \<and> hasSynth s \<longrightarrow>
      utterances (step (Result Wake i heard) s) =
        utterances s @ [(''Yes?'', Some StartCommandCb)] \<and>
      inCommandMode (step (Result Wake i heard) s) \<and>
      (\<forall>c. isRunning Command c (step (Result Wake i heard) s) \<longrightarrow> isRunning Command c s)) \<and>
   (\<forall>c. isRunning Command c (step e s) \<and> \<not> isRunning Command c s \<longrightarrow>
      e = UtteranceEnd \<and> commandRecognition s = Some c \<and>
      (\<exists>tx rest. utterances s = (tx, Some StartCommandCb) # rest \<and>
         utterances (step e s) = rest \<and>
         emitted e s = [Spoken tx, Ding, ShowStatus ''Speak now!'' ''green'', RecStart Command c]))"
proof (rule conjI)
  show "wakeDetected heard s \<and> hasSynth s \<longrightarrow>
      utterances (step (Result Wake i heard) s) =
        utterances s @ [(''Yes?'', Some StartCommandCb)] \<and>
      inCommandMode (step (Result Wake i heard) s) \<and>
      (\<forall>c. isRunning Command c (step (Result Wake i heard) s) \<longrightarrow> isRunning Command c s)"
  proof (rule impI)
    assume a: "wakeDetected heard s \<and> hasSynth s"
    then have "utterances (wakeOnResult heard s) = utterances s @ [(''Yes?'', Some StartCommandCb)]"
      and "inCommandMode (wakeOnResult heard s)"
      using wakeOnResult_detected [of heard s] by blast+
    moreover have "\<forall>c. isRunning Command c (wakeOnResult heard s) \<longrightarrow> isRunning Command c s"
      using wakeOnResult_cmd by blast
    ultimately show "utterances (step (Result Wake i heard) s) =
        utterances s @ [(''Yes?'', Some StartCommandCb)] \<and>
      inCommandMode (step (Result Wake i heard) s) \<and>
      (\<forall>c. isRunning Command c (step (Result Wake i heard) s) \<longrightarrow> isRunning Command c s)"
      by simp
  qed
next
  show "\<forall>c. isRunning Command c (step e s) \<and> \<not> isRunning Command c s \<longrightarrow>
      e = UtteranceEnd \<and> commandRecognition s = Some c \<and>
      (\<exists>tx rest. utterances s = (tx, Some StartCommandCb) # rest \<and>
         utterances (step e s) = rest \<and>
         emitted e s = [Spoken tx, Ding, ShowStatus ''Speak now!'' ''green'', RecStart Command c])"
  proof (intro allI impI)
    fix c
    assume a: "isRunning Command c (step e s) \<and> \<not> isRunning Command c s"
    then have e: "e = UtteranceEnd" using step_cmd [of c e s] by blast
    with a have "isRunning Command c (utteranceEnded s)" by simp
    from utteranceEnded_starts_command [OF this] a
    have "commandRecognition s = Some c \<and>
         (\<exists>tx rest. utterances s = (tx, Some StartCommandCb) # rest \<and>
            utterances (utteranceEnded s) = rest \<and>
            trace (utteranceEnded s) =
              trace s @ [Spoken tx, Ding, ShowStatus ''Speak now!'' ''green'', RecStart Command c])"
      by blast
    with e show "e = UtteranceEnd \<and> commandRecognition s = Some c \<and>
      (\<exists>tx rest. utterances s = (tx, Some StartCommandCb) # rest \<and>
         utterances (step e s) = rest \<and>
         emitted e s = [Spoken tx, Ding, ShowStatus ''Speak now!'' ''green'', RecStart Command c])"
      by (auto simp: emitted_def)
  qed
qed

theorem command_start_follows_prompt_witness:
  "wakeDetected ''hey to do'' (boot True True) \<and> hasSynth (boot True True) \<and>
   utterances (step (Result Wake 0 ''hey to do'') (boot True True)) =
     [(''Yes?'', Some StartCommandCb)] \<and>
   \<not> isRunning Command 0 (step (Result Wake 0 ''hey to do'') (boot True True)) \<and>
   isRunning Command 0 (step UtteranceEnd (step (Result Wake 0 ''hey to do'') (boot True True))) \<and>
   emitted UtteranceEnd (step (Result Wake 0 ''hey to do'') (boot True True)) =
     [Spoken ''Yes?'', Ding, ShowStatus ''Speak now!'' ''green'', RecStart Command 0]"
proof -
  let ?b = "boot True True"
  let ?s = "step (Result Wake 0 ''hey to do'') ?b"
  have d: "wakeDetected ''hey to do'' ?b" by code_simp
  have h: "hasSynth ?b" by code_simp
  have u0: "utterances ?b = []" by code_simp
  have n: "\<not> isRunning Command 0 ?s" by code_simp
  have r: "isRunning Command 0 (step UtteranceEnd ?s)" by code_simp
  from command_start_follows_prompt [of "''hey to do''" ?b 0] d h u0
  have u: "utterances ?s = [(''Yes?'', Some StartCommandCb)]" by simp
  from command_start_follows_prompt [of _ ?s _ UtteranceEnd] r n
  obtain tx rest where "utterances ?s = (tx, Some StartCommandCb) # rest"
    and "emitted UtteranceEnd ?s =
           [Spoken tx, Ding, ShowStatus ''Speak now!'' ''green'', RecStart Command 0]"
    by blast
  with u have "emitted UtteranceEnd ?s =
           [Spoken ''Yes?'', Ding, ShowStatus ''Speak now!'' ''green'', RecStart Command 0]"
    by simp
  with d h u n r show ?thesis by blast
qed

section \<open>The confirmation dialog\<close>

lemma confirmOnResult_cases:
  "confirmOnResult heard s =
     (if saidYes heard then handleConfirmYes s
      else if saidNo heard then handleConfirmCancel s
      else speak repeatPrompt (Some StartConfirmCb) s)"
  by (simp add: confirmOnResult_def saidYes_def saidNo_def repeatPrompt_def Let_def)

lemma closeConfirmDialog_fields:
  "\<not> inConfirmDialog (closeConfirmDialog s)"
  "\<not> dialogVisible (closeConfirmDialog s)"
  "confirmRecognition (closeConfirmDialog s) = None"
  "confirmOnConfirm (closeConfirmDialog s) = confirmOnConfirm s"
  "confirmOnCancel (closeConfirmDialog s) = confirmOnCancel s"
  "hasSynth (closeConfirmDialog s) = hasSynth s"
  "pendingPosts (closeConfirmDialog s) = pendingPosts s"
  by (auto simp: closeConfirmDialog_def Let_def op_defs split: option.splits)

lemma closeConfirmDialog_trace:
  "\<exists>l. trace (closeConfirmDialog s) = trace s @ l \<and> (\<forall>p pl. Post p pl \<notin> set l)"
  by (auto simp: closeConfirmDialog_def Let_def op_defs split: option.splits)

lemma performAction_fields:
  "inConfirmDialog (performAction a s) = inConfirmDialog s"
  "dialogVisible (performAction a s) = dialogVisible s"
  by (cases a; simp add: performAction_def sendCommandJson_def emit_def)+

lemma speak_none_fields:
  "inConfirmDialog (speak tx None s) = inConfirmDialog s"
  "dialogVisible (speak tx None s) = dialogVisible s"
  "confirmOnCancel (speak tx None s) = confirmOnCancel s"
  "pendingPosts (speak tx None s) = pendingPosts s"
  by (simp_all add: speak_def emit_def)

lemma handleConfirmYes_closed:
  "\<not> inConfirmDialog (handleConfirmYes s)" "\<not> dialogVisible (handleConfirmYes s)"
  by (auto simp: handleConfirmYes_def Let_def closeConfirmDialog_fields performAction_fields
        split: option.splits)

lemma handleConfirmCancel_closed:
  "\<not> inConfirmDialog (handleConfirmCancel s)" "\<not> dialogVisible (handleConfirmCancel s)"
  by (auto simp: handleConfirmCancel_def Let_def closeConfirmDialog_fields performAction_fields
        speak_none_fields split: option.splits)

lemma handleConfirmYes_action:
  "confirmOnConfirm s = Some a \<Longrightarrow> handleConfirmYes s = performAction a (closeConfirmDialog s)"
  by (simp add: handleConfirmYes_def Let_def closeConfirmDialog_fields)

lemma handleConfirmCancel_action:
  "confirmOnCancel s = Some a \<Longrightarrow>
   handleConfirmCancel s = performAction a (speak cancelledText None (closeConfirmDialog s))"
  by (simp add: handleConfirmCancel_def Let_def closeConfirmDialog_fields speak_none_fields
        cancelledText_def)

lemma handleConfirmCancel_speaks:
  "hasSynth s \<Longrightarrow> Say cancelledText \<in> set (trace (handleConfirmCancel s))"
  by (cases "confirmOnCancel s"; cases "the (confirmOnCancel s)")
     (auto simp: handleConfirmCancel_def Let_def closeConfirmDialog_fields speak_none_fields
        cancelledText_def speak_def emit_def performAction_def sendCommandJson_def)

lemma utteranceEnded_starts_confirm:
  assumes "hasRecognition s" "utterances s = (tx, Some StartConfirmCb) # rest"
  shows "confirmRecognition (utteranceEnded s) = Some (length (sessions s Confirm))"
    and "sessions (utteranceEnded s) Confirm = sessions s Confirm @ [Running]"
    and "trace (utteranceEnded s) =
           trace s @ [Spoken tx, RecStart Confirm (length (sessions s Confirm))]"
    and "utterances (utteranceEnded s) = rest"
    and "inConfirmDialog (utteranceEnded s) = inConfirmDialog s"
    and "confirmOnConfirm (utteranceEnded s) = confirmOnConfirm s"
    and "confirmOnCancel (utteranceEnded s) = confirmOnCancel s"
    and "hasSynth (utteranceEnded s) = hasSynth s"
    and "pendingPosts (utteranceEnded s) = pendingPosts s"
  using assms
  by (simp_all add: utteranceEnded_def runCallback_def startConfirmRecognition_def Let_def
        op_defs)

lemma confirmOnEnd_restarts:
  assumes "inConfirmDialog s" "confirmRecognition s = Some c" "c < length (sessions s Confirm)"
  shows "isRunning Confirm c (step (End Confirm c) s)"
  using assms
  by (simp add: confirmOnEnd_def sessionEnded_def tryStart_def canStart_def recStart_def
        emit_def isRunning_def)

lemma openConfirmDialog_waits:
  assumes "hasSynth s"
  shows "sessions (openConfirmDialog msg a oc vp s) Confirm = sessions s Confirm"
    and "confirmRecognition (openConfirmDialog msg a oc vp s) = confirmRecognition s"
    and "utterances (openConfirmDialog msg a oc vp s) =
           [(case vp of None \<Rightarrow> msg | Some p \<Rightarrow> if p = [] then msg else p, Some StartConfirmCb)]"
    and "last (trace (openConfirmDialog msg a oc vp s)) =
           Say (case vp of None \<Rightarrow> msg | Some p \<Rightarrow> if p = [] then msg else p)"
    and "inConfirmDialog (openConfirmDialog msg a oc vp s)"
    and "dialogVisible (openConfirmDialog msg a oc vp s)"
    and "confirmOnConfirm (openConfirmDialog msg a oc vp s) = Some a"
    and "confirmOnCancel (openConfirmDialog msg a oc vp s) = oc"
    and "hasSynth (openConfirmDialog msg a oc vp s)"
    and "hasRecognition (openConfirmDialog msg a oc vp s) = hasRecognition s"
    and "pendingPosts (openConfirmDialog msg a oc vp s) = pendingPosts s"
    and "DialogShown msg \<in> set (trace (openConfirmDialog msg a oc vp s))"
  using assms
  by (auto simp: openConfirmDialog_def Let_def falsy_def speak_def op_defs split: option.splits)

lemma confirmOnResult_part000_cases:
  "confirmOnResult_part000 heard s =
     (if saidYes heard then handleConfirmYes s
      else if saidNo heard then handleConfirmCancel_part000 s
      else speak_part000 repeatPrompt_part000 s)"
  by (simp add: confirmOnResult_part000_def saidYes_def saidNo_def Let_def)

lemma speak_part000_fields:
  "inConfirmDialog (speak_part000 tx s) = inConfirmDialog s"
  "dialogVisible (speak_part000 tx s) = dialogVisible s"
  "confirmOnCancel (speak_part000 tx s) = confirmOnCancel s"
  "confirmRecognition (speak_part000 tx s) = confirmRecognition s"
  "sessions (speak_part000 tx s) = sessions s"
  by (simp_all add: speak_part000_def emit_def)

lemma handleConfirmCancel_part000_closed:
  "\<not> inConfirmDialog (handleConfirmCancel_part000 s)"
  "\<not> dialogVisible (handleConfirmCancel_part000 s)"
  by (auto simp: handleConfirmCancel_part000_def Let_def closeConfirmDialog_fields
        performAction_fields speak_part000_fields split: option.splits)

lemma handleConfirmCancel_part000_speaks:
  "hasSynth s \<Longrightarrow> Say cancelledText \<in> set (trace (handleConfirmCancel_part000 s))"
  by (cases "confirmOnCancel s"; cases "the (confirmOnCancel s)")
     (auto simp: handleConfirmCancel_part000_def Let_def closeConfirmDialog_fields
        speak_part000_fields cancelledText_def speak_part000_def emit_def performAction_def
        sendCommandJson_def)

lemma reprompt_keeps_session:
  assumes "\<not> saidYes heard" "\<not> saidNo heard" "hasSynth s"
  shows "emitted (Result Confirm i heard) s = [Say repeatPrompt]"
    and "inConfirmDialog (step (Result Confirm i heard) s) = inConfirmDialog s"
    and "confirmRecognition (step (Result Confirm i heard) s) = confirmRecognition s"
    and "sessions (step (Result Confirm i heard) s) = sessions s"
    and "trace (confirmOnResult_part000 heard s) = trace s @ [Say repeatPrompt_part000]"
    and "inConfirmDialog (confirmOnResult_part000 heard s) = inConfirmDialog s"
    and "confirmRecognition (confirmOnResult_part000 heard s) = confirmRecognition s"
    and "sessions (confirmOnResult_part000 heard s) = sessions s"
  using assms
  by (simp_all add: confirmOnResult_cases confirmOnResult_part000_cases emitted_def speak_def
        speak_part000_def emit_def)

text \<open>
  C7, as the code has it, in both copies of the script. A reply (in lower case, trimmed)
  that contains "confirm", "yeah" or "sure", or that is exactly "yes", accepts: the dialog
  closes and the pending action runs. Any other reply that contains "cancel", "no" or
  "nope" declines: the dialog closes and the cancellation is spoken. Every other reply
  speaks the request to repeat and leaves the dialog open with its session, and while the
  dialog is open the end event of the session restarts it.
\<close>

theorem confirmation_replies:
  "(saidYes heard \<longrightarrow>
      step (Result Confirm i heard) s = handleConfirmYes s \<and>
      confirmOnResult_part000 heard s = handleConfirmYes s) \<and>
   (\<not> saidYes heard \<and> saidNo heard \<longrightarrow>
      step (Result Confirm i heard) s = handleConfirmCancel s \<and>
      confirmOnResult_part000 heard s = handleConfirmCancel_part000 s) \<and>
   (\<not> saidYes heard \<and> \<not> saidNo heard \<and> hasSynth s \<longrightarrow>
      emitted (Result Confirm i heard) s = [Say repeatPrompt] \<and>
      trace (confirmOnResult_part000 heard s) = trace s @ [Say repeatPrompt_part000] \<and>
      inConfirmDialog (step (Result Confirm i heard) s) = inConfirmDialog s \<and>
      inConfirmDialog (confirmOnResult_part000 heard s) = inConfirmDialog s \<and>
      (\<forall>c. inConfirmDialog s \<and> confirmRecognition s = Some c \<and> c < length (sessions s Confirm) \<longrightarrow>
         isRunning Confirm c (step (End Confirm c) (step (Result Confirm i heard) s)) \<and>
         isRunning Confirm c (step (End Confirm c) (confirmOnResult_part000 heard s)))) \<and>
   \<not> inConfirmDialog (handleConfirmYes s) \<and> \<not> dialogVisible (handleConfirmYes s) \<and>
   (\<forall>a. confirmOnConfirm s = Some a \<longrightarrow>
      handleConfirmYes s = performAction a (closeConfirmDialog s)) \<and>
   \<not> inConfirmDialog (handleConfirmCancel s) \<and> \<not> dialogVisible (handleConfirmCancel s) \<and>
   \<not> inConfirmDialog (handleConfirmCancel_part000 s) \<and>
   \<not> dialogVisible (handleConfirmCancel_part000 s) \<and>
   (hasSynth s \<longrightarrow>
      Say cancelledText \<in> set (trace (handleConfirmCancel s)) \<and>
      Say cancelledText \<in> set (trace (handleConfirmCancel_part000 s))) \<and>
   (\<forall>c. inConfirmDialog s \<and> confirmRecognition s = Some c \<and> c < length (sessions s Confirm) \<longrightarrow>
      isRunning Confirm c (step (End Confirm c) s))"
proof -
  have 1: "saidYes heard \<longrightarrow>
      step (Result Confirm i heard) s = handleConfirmYes s \<and>
      confirmOnResult_part000 heard s = handleConfirmYes s"
    by (simp add: confirmOnResult_cases confirmOnResult_part000_cases)
  have 2: "\<not> saidYes heard \<and> saidNo heard \<longrightarrow>
      step (Result Confirm i heard) s = handleConfirmCancel s \<and>
      confirmOnResult_part000 heard s = handleConfirmCancel_part000 s"
    by (simp add: confirmOnResult_cases confirmOnResult_part000_cases)
  have 3: "\<not> saidYes heard \<and> \<not> saidNo heard \<and> hasSynth s \<longrightarrow>
      emitted (Result Confirm i heard) s = [Say repeatPrompt] \<and>
      trace (confirmOnResult_part000 heard s) = trace s @ [Say repeatPrompt_part000] \<and>
      inConfirmDialog (step (Result Confirm i heard) s) = inConfirmDialog s \<and>
      inConfirmDialog (confirmOnResult_part000 heard s) = inConfirmDialog s \<and>
      (\<forall>c. inConfirmDialog s \<and> confirmRecognition s = Some c \<and> c < length (sessions s Confirm) \<longrightarrow>
         isRunning Confirm c (step (End Confirm c) (step (Result Confirm i heard) s)) \<and>
         isRunning Confirm c (step (End Confirm c) (confirmOnResult_part000 heard s)))"
  proof (rule impI)
    assume a: "\<not> saidYes heard \<and> \<not> saidNo heard \<and> hasSynth s"
    then have n: "\<not> saidYes heard" "\<not> saidNo heard" "hasSynth s" by simp_all
    note k = reprompt_keeps_session [OF n]
    have "isRunning Confirm c (step (End Confirm c) (step (Result Confirm i heard) s)) \<and>
          isRunning Confirm c (step (End Confirm c) (confirmOnResult_part000 heard s))"
      if "inConfirmDialog s \<and> confirmRecognition s = Some c \<and> c < length (sessions s Confirm)" for c
      using that k(2,3,4,6,7,8)
        confirmOnEnd_restarts [of "step (Result Confirm i heard) s" c]
        confirmOnEnd_restarts [of "confirmOnResult_part000 heard s" c]
      by simp
    with k(1,2,5,6) show "emitted (Result Confirm i heard) s = [Say repeatPrompt] \<and>
      trace (confirmOnResult_part000 heard s) = trace s @ [Say repeatPrompt_part000] \<and>
      inConfirmDialog (step (Result Confirm i heard) s) = inConfirmDialog s \<and>
      inConfirmDialog (confirmOnResult_part000 heard s) = inConfirmDialog s \<and>
      (\<forall>c. inConfirmDialog s \<and> confirmRecognition s = Some c \<and> c < length (sessions s Confirm) \<longrightarrow>
         isRunning Confirm c (step (End Confirm c) (step (Result Confirm i heard) s)) \<and>
         isRunning Confirm c (step (End Confirm c) (confirmOnResult_part000 heard s)))"
      by blast
  qed
  have 5: "\<forall>c. inConfirmDialog s \<and> confirmRecognition s = Some c \<and>
      c < length (sessions s Confirm) \<longrightarrow> isRunning Confirm c (step (End Confirm c) s)"
    using confirmOnEnd_restarts by blast
  from 1 2 3 5 show ?thesis
    using handleConfirmYes_closed [of s] handleConfirmCancel_closed [of s]
      handleConfirmCancel_part000_closed [of s]
      handleConfirmYes_action [of s] handleConfirmCancel_speaks [of s]
      handleConfirmCancel_part000_speaks [of s]
    by (intro conjI) blast+
qed

theorem confirmation_replies_witness:
  "saidYes ''Yes'' \<and> \<not> saidYes ''no way'' \<and> saidNo ''no way'' \<and>
   \<not> saidYes ''maybe'' \<and> \<not> saidNo ''maybe'' \<and>
   inConfirmDialog (run [ClearClick, UtteranceEnd] (boot True True)) \<and>
   confirmRecognition (run [ClearClick, UtteranceEnd] (boot True True)) = Some 0 \<and>
   step (Result Confirm 0 ''Yes'') (run [ClearClick, UtteranceEnd] (boot True True)) =
     handleConfirmYes (run [ClearClick, UtteranceEnd] (boot True True)) \<and>
   confirmOnResult_part000 ''no way'' (run [ClearClick, UtteranceEnd] (boot True True)) =
     handleConfirmCancel_part000 (run [ClearClick, UtteranceEnd] (boot True True)) \<and>
   inConfirmDialog (step (Result Confirm 0 ''maybe'') (run [ClearClick, UtteranceEnd] (boot True True))) \<and>
   emitted (Result Confirm 0 ''maybe'') (run [ClearClick, UtteranceEnd] (boot True True)) =
     [Say repeatPrompt] \<and>
   isRunning Confirm 0 (step (End Confirm 0)
     (step (Result Confirm 0 ''maybe'') (run [ClearClick, UtteranceEnd] (boot True True)))) \<and>
   isRunning Confirm 0 (step (End Confirm 0)
     (confirmOnResult_part000 ''maybe'' (run [ClearClick, UtteranceEnd] (boot True True))))"
proof -
  let ?d = "run [ClearClick, UtteranceEnd] (boot True True)"
  have y: "saidYes ''Yes''" and n: "\<not> saidYes ''no way''" "saidNo ''no way''"
    and m: "\<not> saidYes ''maybe''" "\<not> saidNo ''maybe''"
    by code_simp+
  have d: "inConfirmDialog ?d" "confirmRecognition ?d = Some 0" "hasSynth ?d"
    "0 < length (sessions ?d Confirm)"
    by code_simp+
  from confirmation_replies [of "''Yes''" 0 ?d] y
  have a: "step (Result Confirm 0 ''Yes'') ?d = handleConfirmYes ?d" by blast
  from confirmation_replies [of "''no way''" 0 ?d] n
  have b: "confirmOnResult_part000 ''no way'' ?d = handleConfirmCancel_part000 ?d" by blast
  from confirmation_replies [of "''maybe''" 0 ?d] m d(3)
  have c: "inConfirmDialog (step (Result Confirm 0 ''maybe'') ?d) = inConfirmDialog ?d"
    "emitted (Result Confirm 0 ''maybe'') ?d = [Say repeatPrompt]"
    by blast+
  from confirmation_replies [of "''maybe''" 0 ?d] m d
  have e: "isRunning Confirm 0 (step (End Confirm 0) (step (Result Confirm 0 ''maybe'') ?d))"
    "isRunning Confirm 0 (step (End Confirm 0) (confirmOnResult_part000 ''maybe'' ?d))"
    by blast+
  from y n m d a b c e show ?thesis by blast
qed

text \<open>
  C6. With speech synthesis and recognition available, the command "clear all" opens the
  dialog and speaks a prompt that contains "Warning"; when the prompt has ended a
  confirmation session listens; the reply "yes" closes the dialog and sends
  \<open>POST /clear\<close>; the reply "no" closes the dialog, speaks the cancellation and sends
  nothing.
\<close>

theorem clear_all_scenario:
  assumes "hasSynth s" and "hasRecognition s"
  shows
   "inConfirmDialog (processCommand (Some ''clear all'') s) \<and>
    dialogVisible (processCommand (Some ''clear all'') s) \<and>
    utterances (processCommand (Some ''clear all'') s) = [(clearAllPrompt, Some StartConfirmCb)] \<and>
    last (trace (processCommand (Some ''clear all'') s)) = Say clearAllPrompt \<and>
    includesStr clearAllPrompt ''Warning'' \<and>
    sessions (processCommand (Some ''clear all'') s) Confirm = sessions s Confirm \<and>
    isRunning Confirm (length (sessions s Confirm))
      (step UtteranceEnd (processCommand (Some ''clear all'') s)) \<and>
    Post ''/clear'' [] \<in> set (emitted (Result Confirm i ''yes'')
      (step UtteranceEnd (processCommand (Some ''clear all'') s))) \<and>
    \<not> inConfirmDialog (step (Result Confirm i ''yes'')
      (step UtteranceEnd (processCommand (Some ''clear all'') s))) \<and>
    Say cancelledText \<in> set (emitted (Result Confirm i ''no'')
      (step UtteranceEnd (processCommand (Some ''clear all'') s))) \<and>
    (\<forall>p pl. Post p pl \<notin> set (emitted (Result Confirm i ''no'')
      (step UtteranceEnd (processCommand (Some ''clear all'') s)))) \<and>
    pendingPosts (step (Result Confirm i ''no'')
      (step UtteranceEnd (processCommand (Some ''clear all'') s))) = pendingPosts s \<and>
    \<not> inConfirmDialog (step (Result Confirm i ''no'')
      (step UtteranceEnd (processCommand (Some ''clear all'') s)))"
proof -
  let ?msg = "''This will delete ALL tasks and cannot be undone. Are you sure?''"
  let ?s1 = "processCommand (Some ''clear all'') s"
  let ?s2 = "step UtteranceEnd ?s1"
  have t: "trim ''clear all'' = ''clear all''" "interpretCommand ''clear all'' = ClearAll"
    by code_simp+
  then have "trim ''clear all'' \<noteq> []" by simp
  from processCommand_dispatch [OF this, of s] t
  have s1: "?s1 = openConfirmDialog ?msg SendClear (Some NoAction) (Some clearAllPrompt) s"
    by (simp add: dispatch_def askForClearAllConfirmation_def)
  have pne: "clearAllPrompt \<noteq> []" by (simp add: clearAllPrompt_def)
  note o = openConfirmDialog_waits [OF assms(1), of ?msg SendClear "Some NoAction"
      "Some clearAllPrompt", folded s1]
  have u1: "utterances ?s1 = [(clearAllPrompt, Some StartConfirmCb)]"
    using o(3) pne by simp
  have l1: "last (trace ?s1) = Say clearAllPrompt"
    using o(4) pne by simp
  have w: "includesStr clearAllPrompt ''Warning''" by code_simp
  have r1: "hasRecognition ?s1" using o(10) assms(2) by simp
  note e = utteranceEnded_starts_confirm [OF r1 u1]
  have run2: "isRunning Confirm (length (sessions s Confirm)) ?s2"
    using e(2) o(1) by (simp add: isRunning_def)
  have oc2: "confirmOnConfirm ?s2 = Some SendClear" using e(6) o(7) by simp
  have ocn2: "confirmOnCancel ?s2 = Some NoAction" using e(7) o(8) by simp
  have hs2: "hasSynth ?s2" using e(8) o(9) by simp
  have pp2: "pendingPosts ?s2 = pendingPosts s" using e(9) o(11) by simp
  have yes: "saidYes ''yes''" and no: "\<not> saidYes ''no''" "saidNo ''no''" by code_simp+
  obtain l where l: "trace (closeConfirmDialog ?s2) = trace ?s2 @ l"
    "\<forall>p pl. Post p pl \<notin> set l"
    using closeConfirmDialog_trace [of ?s2] by blast
  have sy: "step (Result Confirm i ''yes'') ?s2 = performAction SendClear (closeConfirmDialog ?s2)"
    using yes oc2 by (simp add: confirmOnResult_cases handleConfirmYes_action)
  have ey: "emitted (Result Confirm i ''yes'') ?s2 = l @ [Post ''/clear'' []]"
    unfolding emitted_def sy using l(1)
    by (simp add: performAction_def sendCommandJson_def emit_def)
  have cy: "\<not> inConfirmDialog (step (Result Confirm i ''yes'') ?s2)"
    unfolding sy by (simp add: performAction_fields closeConfirmDialog_fields)
  have sn: "step (Result Confirm i ''no'') ?s2 =
              speak cancelledText None (closeConfirmDialog ?s2)"
    using no ocn2 by (simp add: confirmOnResult_cases handleConfirmCancel_action performAction_def)
  have hc: "hasSynth (closeConfirmDialog ?s2)" using hs2 by (simp add: closeConfirmDialog_fields)
  have en: "emitted (Result Confirm i ''no'') ?s2 = l @ [Say cancelledText]"
    unfolding emitted_def sn using l(1) hc by (simp add: speak_def emit_def)
  have pn: "pendingPosts (step (Result Confirm i ''no'') ?s2) = pendingPosts s"
    unfolding sn using pp2 by (simp add: speak_none_fields closeConfirmDialog_fields)
  have cn: "\<not> inConfirmDialog (step (Result Confirm i ''no'') ?s2)"
    unfolding sn by (simp add: speak_none_fields closeConfirmDialog_fields)
  from o(5) o(6) u1 l1 w o(1) run2 ey cy en l(2) pn cn show ?thesis by simp
qed

theorem clear_all_scenario_witness:
  "hasSynth (run [Result Wake 0 ''hey to do'', End Wake 0, UtteranceEnd] (boot True True)) \<and>
   hasRecognition (run [Result Wake 0 ''hey to do'', End Wake 0, UtteranceEnd] (boot True True)) \<and>
   utterances (processCommand (Some ''clear all'')
      (run [Result Wake 0 ''hey to do'', End Wake 0, UtteranceEnd] (boot True True))) =
     [(clearAllPrompt, Some StartConfirmCb)] \<and>
   Post ''/clear'' [] \<in> set (emitted (Result Confirm 0 ''yes'')
      (step UtteranceEnd (processCommand (Some ''clear all'')
         (run [Result Wake 0 ''hey to do'', End Wake 0, UtteranceEnd] (boot True True))))) \<and>
   Say cancelledText \<in> set (emitted (Result Confirm 0 ''no'')
      (step UtteranceEnd (processCommand (Some ''clear all'')
         (run [Result Wake 0 ''hey to do'', End Wake 0, UtteranceEnd] (boot True True)))))"
proof -
  let ?s = "run [Result Wake 0 ''hey to do'', End Wake 0, UtteranceEnd] (boot True True)"
  have h: "hasSynth ?s" "hasRecognition ?s" by code_simp+
  from clear_all_scenario [OF h, of 0] h show ?thesis by blast
qed

end
